theory Spec2Isabelle
  imports Complex_Main "HOL-Library.AList"
begin

section \<open>cpupower-gui (Qt port): the settings reconciliation of window.py\<close>

text \<open>
  The development embeds the parts of \<^verbatim>\<open>src/cpupower_gui/window.py\<close> that decide
  what is written to the privileged helper and how the helper's answers are reported:
  the error table \<^verbatim>\<open>ERRORS\<close>, the apply pass (\<^verbatim>\<open>on_apply_clicked\<close> with
  \<^verbatim>\<open>_set_cpu_online\<close>, \<^verbatim>\<open>_set_cpu_governor\<close>, \<^verbatim>\<open>_set_cpu_energy_preferences\<close>,
  \<^verbatim>\<open>_set_cpu_frequencies\<close>) and the edit handlers (\<^verbatim>\<open>_on_freq_changed\<close>,
  \<^verbatim>\<open>_update_settings_freqs\<close>, \<^verbatim>\<open>on_governor_changed\<close>, \<^verbatim>\<open>on_energy_pref_changed\<close>,
  \<^verbatim>\<open>on_cpu_online_toggled\<close>).  Widgets are kept only as far as the handlers read them.
\<close>

subsection \<open>Data\<close>

type_synonym cpu = int

text \<open>
  Modelled from the spec: the class \<^verbatim>\<open>CpuSettings\<close> lives in config.py, which is not
  among the sources.  The record holds the editable fields window.py reads
  (\<^verbatim>\<open>conf.online\<close>, \<^verbatim>\<open>conf.freqs\<close>, \<^verbatim>\<open>conf.governor\<close>, \<^verbatim>\<open>conf.energy_pref\<close>), the
  baseline they are compared with, and the hardware facts (\<^verbatim>\<open>conf.hw_lims\<close>,
  \<^verbatim>\<open>conf.governors\<close>, \<^verbatim>\<open>conf.energy_prefs\<close>).  Frequencies are MHz; Python's floats are
  idealised as reals.  \<open>None\<close> is Python's \<^verbatim>\<open>None\<close>.
\<close>

record cpu_settings =
  online :: bool
  freqs :: "real option \<times> real option"
  governor :: "string option"
  energy_pref :: "string option"
  base_online :: bool
  base_freqs :: "real option \<times> real option"
  base_governor :: "string option"
  base_energy_pref :: "string option"
  hw_lims :: "real \<times> real"
  governors :: "string list"
  energy_prefs :: "string list"

datatype setting = Freqs | Governor | EnergyPref

text \<open>
  Modelled from the spec: \<^verbatim>\<open>conf.setting_changed(field)\<close> is true iff that field differs
  from the baseline, and \<^verbatim>\<open>conf.changed\<close> iff any editable field does.
\<close>

fun setting_changed :: "cpu_settings \<Rightarrow> setting \<Rightarrow> bool" where
  "setting_changed conf Freqs = (freqs conf \<noteq> base_freqs conf)"
| "setting_changed conf Governor = (governor conf \<noteq> base_governor conf)"
| "setting_changed conf EnergyPref = (energy_pref conf \<noteq> base_energy_pref conf)"

definition changed :: "cpu_settings \<Rightarrow> bool" where
  "changed conf \<longleftrightarrow>
     online conf \<noteq> base_online conf \<or> setting_changed conf Freqs \<or>
     setting_changed conf Governor \<or> setting_changed conf EnergyPref"

text \<open>
  Modelled from the spec: \<^verbatim>\<open>conf.freqs_scaled\<close> is the pair in the helper's unit, kHz
  (MHz times 1000); a value that is \<^verbatim>\<open>None\<close> stays \<^verbatim>\<open>None\<close>.
\<close>

definition freqs_scaled :: "cpu_settings \<Rightarrow> real option \<times> real option" where
  "freqs_scaled conf =
     (map_option (\<lambda>f. f * 1000) (fst (freqs conf)), map_option (\<lambda>f. f * 1000) (snd (freqs conf)))"

text \<open>
  \<^verbatim>\<open>self.settings\<close> is a dict from CPU number to settings, iterated in insertion order:
  an association list, read with \<open>map_of\<close> (\<^verbatim>\<open>self.settings.get(cpu)\<close>).
\<close>

type_synonym settings = "(cpu \<times> cpu_settings) list"

subsection \<open>The privileged helper\<close>

text \<open>
  The D-Bus helper is an external collaborator.  Its mutating methods are the
  privileged calls; each returns an integer and may change the helper's hidden state
  \<open>'h\<close>.  Its queries read that state.
\<close>

datatype call =
    SetCpuOnline cpu
  | SetCpuOffline cpu
  | UpdateCpuGovernor cpu string
  | UpdateCpuEnergyPrefs cpu string
  | UpdateCpuSettings cpu real real

record 'h helper =
  isauthorized :: "'h \<Rightarrow> bool"
  get_cpus_present :: "'h \<Rightarrow> cpu list"
  get_cpus_online :: "'h \<Rightarrow> cpu list"
  get_cpus_offline :: "'h \<Rightarrow> cpu list"
  cpu_allowed_offline :: "'h \<Rightarrow> cpu \<Rightarrow> bool"
  privileged :: "'h \<Rightarrow> call \<Rightarrow> int \<times> 'h"

text \<open>
  The state threaded through an apply pass: the helper's state and the privileged calls
  issued so far, oldest first, each with the integer the helper returned.
\<close>

type_synonym 'h st = "'h \<times> (call \<times> int) list"

definition helper_call :: "'h helper \<Rightarrow> call \<Rightarrow> 'h st \<Rightarrow> int \<times> 'h st" where
  "helper_call H c s =
     (case privileged H (fst s) c of (r, h') \<Rightarrow> (r, (h', snd s @ [(c, r)])))"

subsection \<open>The error table\<close>

definition ERRORS :: "int \<rightharpoonup> string" where
  "ERRORS = map_of
     [(- 11, ''Setting governor failed.''),
      (- 12, ''Setting energy preferences failed.''),
      (- 13, ''Setting frequencies failed.''),
      (- 23, ''Setting governor and energy preferences failed.''),
      (- 24, ''Setting governor and frequencies failed.''),
      (- 25, ''Setting frequencies and energy preferences failed.'')]"

subsection \<open>The apply pass\<close>

definition is_online :: "'h helper \<Rightarrow> 'h \<Rightarrow> cpu \<Rightarrow> bool" where
  "is_online H h c \<longleftrightarrow> c \<in> set (get_cpus_present H h) \<and> c \<in> set (get_cpus_online H h)"

definition is_offline :: "'h helper \<Rightarrow> 'h \<Rightarrow> cpu \<Rightarrow> bool" where
  "is_offline H h c \<longleftrightarrow> c \<in> set (get_cpus_present H h) \<and> c \<in> set (get_cpus_offline H h)"

text \<open>
  \<^verbatim>\<open>_set_cpu_online\<close>.  The call to \<^verbatim>\<open>_update_sliders\<close> after going online only redraws
  widgets and is left out.
\<close>

definition set_cpu_online :: "'h helper \<Rightarrow> settings \<Rightarrow> cpu \<Rightarrow> 'h st \<Rightarrow> int \<times> 'h st" where
  "set_cpu_online H sts c s =
     (case map_of sts c of
        None \<Rightarrow> (0, s)
      | Some conf \<Rightarrow>
          if is_offline H (fst s) c \<and> online conf then helper_call H (SetCpuOnline c) s
          else if is_online H (fst s) c \<and> \<not> online conf then
            (if cpu_allowed_offline H (fst s) c then helper_call H (SetCpuOffline c) s
             else (0, s))
          else (0, s))"

text \<open>\<^verbatim>\<open>_set_cpu_governor\<close>.\<close>

definition set_cpu_governor :: "'h helper \<Rightarrow> settings \<Rightarrow> cpu \<Rightarrow> 'h st \<Rightarrow> int \<times> 'h st" where
  "set_cpu_governor H sts c s =
     (case map_of sts c of
        None \<Rightarrow> (- 1, s)
      | Some conf \<Rightarrow>
          (case governor conf of
             None \<Rightarrow> (- 1, s)
           | Some gov \<Rightarrow>
               (case helper_call H (UpdateCpuGovernor c gov) s of
                  (ret, s') \<Rightarrow> (if ret \<noteq> 0 then - 11 else 0, s'))))"

text \<open>
  \<^verbatim>\<open>_set_cpu_energy_preferences\<close>; \<open>avail\<close> is \<^verbatim>\<open>self.energy_pref_avail\<close>.  Python's
  \<^verbatim>\<open>not pref\<close> holds for \<^verbatim>\<open>None\<close> and for the empty string.
\<close>

definition set_cpu_energy_preferences ::
  "'h helper \<Rightarrow> bool \<Rightarrow> settings \<Rightarrow> cpu \<Rightarrow> 'h st \<Rightarrow> int \<times> 'h st" where
  "set_cpu_energy_preferences H avail sts c s =
     (if \<not> avail then (0, s)
      else
        (case map_of sts c of
           None \<Rightarrow> (- 1, s)
         | Some conf \<Rightarrow>
             (case energy_pref conf of
                None \<Rightarrow> (- 1, s)
              | Some pref \<Rightarrow>
                  if pref = [] then (- 1, s)
                  else
                    (case helper_call H (UpdateCpuEnergyPrefs c pref) s of
                       (ret, s') \<Rightarrow> (if ret \<noteq> 0 then - 12 else 0, s')))))"

text \<open>\<^verbatim>\<open>_set_cpu_frequencies\<close>.\<close>

definition set_cpu_frequencies :: "'h helper \<Rightarrow> settings \<Rightarrow> cpu \<Rightarrow> 'h st \<Rightarrow> int \<times> 'h st" where
  "set_cpu_frequencies H sts c s =
     (case map_of sts c of
        None \<Rightarrow> (- 1, s)
      | Some conf \<Rightarrow>
          (case freqs_scaled conf of
             (Some fmin, Some fmax) \<Rightarrow>
               (case helper_call H (UpdateCpuSettings c fmin fmax) s of
                  (ret, s') \<Rightarrow> (if ret \<noteq> 0 then - 13 else 0, s'))
           | _ \<Rightarrow> (- 1, s)))"

text \<open>\<^verbatim>\<open>ret += step\<close>: run a step and add what it returns to the running sum.\<close>

definition add_step :: "('h st \<Rightarrow> int \<times> 'h st) \<Rightarrow> int \<times> 'h st \<Rightarrow> int \<times> 'h st" where
  "add_step f acc = (case f (snd acc) of (r, s') \<Rightarrow> (fst acc + r, s'))"

definition changed_cpus :: "settings \<Rightarrow> cpu list" where
  "changed_cpus sts = map fst (filter (\<lambda>(c, conf). changed conf) sts)"

text \<open>
  The body of the loop over \<^verbatim>\<open>changed_cpus\<close>.  Every CPU of that list is a key of the
  dict, so \<^verbatim>\<open>self.settings.get(cpu)\<close> is never \<^verbatim>\<open>None\<close> there (lemma
  \<open>changed_cpus_lookup\<close>); the first branch is not reached.
\<close>

definition apply_cpu ::
  "'h helper \<Rightarrow> bool \<Rightarrow> settings \<Rightarrow> int \<times> 'h st \<Rightarrow> cpu \<Rightarrow> int \<times> 'h st" where
  "apply_cpu H avail sts acc c =
     (case map_of sts c of
        None \<Rightarrow> acc
      | Some conf \<Rightarrow>
          (let cpu_online = online conf;
               acc1 = add_step (set_cpu_online H sts c) acc
           in if cpu_online then
                (let acc2 = (if setting_changed conf Freqs
                             then add_step (set_cpu_frequencies H sts c) acc1 else acc1);
                     acc3 = (if setting_changed conf Governor
                             then add_step (set_cpu_governor H sts c) acc2 else acc2)
                 in if setting_changed conf EnergyPref
                    then add_step (set_cpu_energy_preferences H avail sts c) acc3 else acc3)
              else acc1))"

datatype outcome = NotAuthorized | Success | Failed string

definition report :: "int \<Rightarrow> outcome" where
  "report ret =
     (if ret = 0 then Success
      else Failed (case ERRORS ret of Some msg \<Rightarrow> msg | None \<Rightarrow> ''Unknown error occurred.''))"

text \<open>
  \<^verbatim>\<open>on_apply_clicked\<close>: what the user is told, the sum \<^verbatim>\<open>ret\<close>, and the helper's state with
  the privileged calls issued.  The refresh of the settings from the hardware that
  follows the loop goes through config.py and is not modelled.
\<close>

definition on_apply_clicked ::
  "'h helper \<Rightarrow> bool \<Rightarrow> settings \<Rightarrow> 'h \<Rightarrow> outcome \<times> int \<times> 'h st" where
  "on_apply_clicked H avail sts h =
     (if \<not> isauthorized H h then (NotAuthorized, 0, (h, []))
      else
        (case foldl (apply_cpu H avail sts) (0, (h, [])) (changed_cpus sts) of
           (ret, s) \<Rightarrow> (report ret, ret, s)))"

subsection \<open>Accounting for an apply pass\<close>

text \<open>
  What one logged privileged call adds to \<^verbatim>\<open>ret\<close>: the raw value for an online or offline
  transition, the fixed code of the dimension for a failed write, nothing for a
  successful one.
\<close>

fun contribution :: "call \<times> int \<Rightarrow> int" where
  "contribution (SetCpuOnline c, r) = r"
| "contribution (SetCpuOffline c, r) = r"
| "contribution (UpdateCpuGovernor c g, r) = (if r \<noteq> 0 then - 11 else 0)"
| "contribution (UpdateCpuEnergyPrefs c p, r) = (if r \<noteq> 0 then - 12 else 0)"
| "contribution (UpdateCpuSettings c a b, r) = (if r \<noteq> 0 then - 13 else 0)"

fun call_cpu :: "call \<Rightarrow> cpu" where
  "call_cpu (SetCpuOnline c) = c"
| "call_cpu (SetCpuOffline c) = c"
| "call_cpu (UpdateCpuGovernor c g) = c"
| "call_cpu (UpdateCpuEnergyPrefs c p) = c"
| "call_cpu (UpdateCpuSettings c a b) = c"

fun transition_call :: "call \<Rightarrow> bool" where
  "transition_call (SetCpuOnline c) = True"
| "transition_call (SetCpuOffline c) = True"
| "transition_call (UpdateCpuGovernor c g) = False"
| "transition_call (UpdateCpuEnergyPrefs c p) = False"
| "transition_call (UpdateCpuSettings c a b) = False"

definition failed :: "call \<times> int \<Rightarrow> bool" where
  "failed e \<longleftrightarrow> snd e \<noteq> 0"

text \<open>
  The steps of one CPU that are selected for writing but return \<open>- 1\<close> without a call,
  because the value to write is missing.
\<close>

definition missing_count :: "bool \<Rightarrow> cpu_settings \<Rightarrow> nat" where
  "missing_count avail conf =
     (if online conf then
        (if setting_changed conf Freqs \<and>
            (fst (freqs conf) = None \<or> snd (freqs conf) = None) then 1 else 0) +
        (if setting_changed conf Governor \<and> governor conf = None then 1 else 0) +
        (if setting_changed conf EnergyPref \<and> avail \<and>
            (energy_pref conf = None \<or> energy_pref conf = Some []) then 1 else 0)
      else 0)"

definition missing_of :: "bool \<Rightarrow> settings \<Rightarrow> cpu \<Rightarrow> nat" where
  "missing_of avail sts c =
     (case map_of sts c of None \<Rightarrow> 0 | Some conf \<Rightarrow> missing_count avail conf)"

definition missing_total :: "bool \<Rightarrow> settings \<Rightarrow> nat" where
  "missing_total avail sts = sum_list (map (missing_of avail sts) (changed_cpus sts))"

text \<open>
  \<open>extends acc acc' ev m\<close>: from \<open>acc\<close> to \<open>acc'\<close> the calls \<open>ev\<close> were logged, and the sum
  grew by their contributions less one for each of \<open>m\<close> steps skipped for a missing value.
\<close>

definition extends :: "int \<times> 'h st \<Rightarrow> int \<times> 'h st \<Rightarrow> (call \<times> int) list \<Rightarrow> nat \<Rightarrow> bool" where
  "extends acc acc' ev m \<longleftrightarrow>
     snd (snd acc') = snd (snd acc) @ ev \<and>
     fst acc' = fst acc + sum_list (map contribution ev) - int m"

text \<open>
  The helper's state after the logged calls \<open>tr\<close>, starting from \<open>h\<close>: only privileged
  calls change it.
\<close>

definition state_after :: "'h helper \<Rightarrow> 'h \<Rightarrow> (call \<times> int) list \<Rightarrow> 'h" where
  "state_after H h tr = foldl (\<lambda>g e. snd (privileged H g (fst e))) h tr"

text \<open>
  A transition call is justified in the helper's state \<open>g\<close> when the live state of its
  CPU disagrees with the target: going online for a CPU that is offline and shall be
  online; going offline for a CPU that is online, shall be offline and may go offline.
\<close>

definition justified :: "'h helper \<Rightarrow> settings \<Rightarrow> 'h \<Rightarrow> call \<Rightarrow> bool" where
  "justified H sts g cl =
     (case cl of
        SetCpuOnline c \<Rightarrow>
          (case map_of sts c of None \<Rightarrow> False
           | Some conf \<Rightarrow> is_offline H g c \<and> online conf)
      | SetCpuOffline c \<Rightarrow>
          (case map_of sts c of None \<Rightarrow> False
           | Some conf \<Rightarrow> is_online H g c \<and> \<not> online conf \<and> cpu_allowed_offline H g c)
      | _ \<Rightarrow> True)"

text \<open>
  \<open>replayed H sts h s\<close>: the state \<open>s\<close> of a pass that started in \<open>h\<close> holds the helper's
  state after its log, and every logged call was justified, and answered by the helper,
  in the state after the calls before it.
\<close>

definition replayed :: "'h helper \<Rightarrow> settings \<Rightarrow> 'h \<Rightarrow> 'h st \<Rightarrow> bool" where
  "replayed H sts h s \<longleftrightarrow>
     fst s = state_after H h (snd s) \<and>
     (\<forall>pre cl r post. snd s = pre @ (cl, r) # post \<longrightarrow>
        justified H sts (state_after H h pre) cl \<and>
        r = fst (privileged H (state_after H h pre) cl))"

subsection \<open>The edit handlers\<close>

datatype py_error = KeyError

text \<open>
  The property setters of \<^verbatim>\<open>CpuSettings\<close> (\<^verbatim>\<open>conf.freqs = ...\<close>, \<^verbatim>\<open>conf.governor = ...\<close>,
  \<^verbatim>\<open>conf.energy_pref = ...\<close>, \<^verbatim>\<open>conf.online = ...\<close>) are code of config.py; the handlers
  take them as a parameter.
\<close>

record setters =
  freqs_set :: "cpu_settings \<Rightarrow> real \<times> real \<Rightarrow> cpu_settings"
  governor_set :: "cpu_settings \<Rightarrow> string \<Rightarrow> cpu_settings"
  energy_pref_set :: "cpu_settings \<Rightarrow> string \<Rightarrow> cpu_settings"
  online_set :: "cpu_settings \<Rightarrow> bool \<Rightarrow> cpu_settings"

text \<open>
  The window, as far as the handlers read and write it: \<^verbatim>\<open>self.settings\<close>,
  \<^verbatim>\<open>self.toall_btn.isChecked()\<close>, \<^verbatim>\<open>self.energy_per_cpu\<close>, \<^verbatim>\<open>self.refreshing\<close> and the CPU
  \<^verbatim>\<open>_get_active_cpu()\<close> returns.  The spin boxes and sliders are Qt's: what a handler reads
  from them is an argument of its model, what it writes to them is part of the result.
\<close>

record window =
  settings :: settings
  toall :: bool
  energy_per_cpu :: bool
  refreshing :: bool
  active_cpu :: cpu

text \<open>Apply \<open>f\<close> to every value of the dict, and to the value of one key.\<close>

definition for_all_confs :: "(cpu_settings \<Rightarrow> cpu_settings) \<Rightarrow> settings \<Rightarrow> settings" where
  "for_all_confs f sts = map (\<lambda>(c, conf). (c, f conf)) sts"

definition for_conf :: "cpu \<Rightarrow> (cpu_settings \<Rightarrow> cpu_settings) \<Rightarrow> settings \<Rightarrow> settings" where
  "for_conf c f sts = AList.map_entry c f sts"

text \<open>\<^verbatim>\<open>_update_settings_freqs\<close>.\<close>

definition update_settings_freqs :: "setters \<Rightarrow> window \<Rightarrow> cpu \<Rightarrow> real \<Rightarrow> real \<Rightarrow> window" where
  "update_settings_freqs S w c fmin fmax =
     (if toall w
      then w\<lparr>settings := for_all_confs (\<lambda>conf. freqs_set S conf (fmin, fmax)) (settings w)\<rparr>
      else w\<lparr>settings := for_conf c (\<lambda>conf. freqs_set S conf (fmin, fmax)) (settings w)\<rparr>)"

text \<open>
  \<^verbatim>\<open>_on_freq_changed\<close>.  \<open>fmin\<close> and \<open>fmax\<close> are what \<^verbatim>\<open>self.min_spin.value()\<close> and
  \<^verbatim>\<open>self.max_spin.value()\<close> return.  Python's floats are binary64, so \<^verbatim>\<open>fmin + 10\<close> and
  \<^verbatim>\<open>fmax - 10\<close> are rounded: \<open>rnd\<close> is that rounding (the identity for exact arithmetic);
  comparisons, \<^verbatim>\<open>min\<close> and \<^verbatim>\<open>max\<close> are exact.  \<^verbatim>\<open>self.settings[cpu]\<close> raises \<^verbatim>\<open>KeyError\<close>
  for a CPU that is not a key.  The result is the window, with \<^verbatim>\<open>refreshing\<close> false as
  \<^verbatim>\<open>self.lock()\<close> leaves it, and the pair the handler passes to \<^verbatim>\<open>setValue\<close> of the spin
  boxes (and, through \<^verbatim>\<open>int\<close>, of the sliders) and to \<^verbatim>\<open>_update_settings_freqs\<close>; how the
  widgets round and bound what they are given is not part of window.py.
\<close>

definition on_freq_changed ::
  "(real \<Rightarrow> real) \<Rightarrow> setters \<Rightarrow> window \<Rightarrow> real \<Rightarrow> real \<Rightarrow> py_error + window \<times> real \<times> real" where
  "on_freq_changed rnd S w fmin fmax =
     (let c = active_cpu w in
      case map_of (settings w) c of
        None \<Rightarrow> Inl KeyError
      | Some conf \<Rightarrow>
          (case hw_lims conf of
             (fmin_hw, fmax_hw) \<Rightarrow>
               (case (if fmin > fmax then (fmin, min (rnd (fmin + 10)) fmax_hw)
                      else if fmax < fmin then (max (rnd (fmax - 10)) fmin_hw, fmax)
                      else (fmin, fmax)) of
                  (fmin', fmax') \<Rightarrow>
                    Inr (update_settings_freqs S (w\<lparr>refreshing := False\<rparr>) c fmin' fmax',
                         fmin', fmax'))))"

text \<open>
  The handlers of the two spin boxes.  Qt emits \<^verbatim>\<open>valueChanged(value)\<close> once the box holds
  \<open>value\<close>, so \<open>value\<close> is what \<^verbatim>\<open>_on_freq_changed\<close> reads from that box; the value of the
  other box is the further argument.  \<open>None\<close>: nothing is written (the window is
  refreshing).  The handlers of the sliders first set the spin box and then run the
  same \<^verbatim>\<open>_on_freq_changed\<close>.
\<close>

definition on_min_spin_changed ::
  "(real \<Rightarrow> real) \<Rightarrow> setters \<Rightarrow> window \<Rightarrow> real \<Rightarrow> real \<Rightarrow> py_error + window \<times> (real \<times> real) option" where
  "on_min_spin_changed rnd S w v fmax =
     (if refreshing w then Inr (w, None)
      else map_sum id (\<lambda>(w', p). (w', Some p)) (on_freq_changed rnd S w v fmax))"

definition on_max_spin_changed ::
  "(real \<Rightarrow> real) \<Rightarrow> setters \<Rightarrow> window \<Rightarrow> real \<Rightarrow> real \<Rightarrow> py_error + window \<times> (real \<times> real) option" where
  "on_max_spin_changed rnd S w v fmin =
     (if refreshing w then Inr (w, None)
      else map_sum id (\<lambda>(w', p). (w', Some p)) (on_freq_changed rnd S w fmin v))"

text \<open>\<^verbatim>\<open>on_cpu_online_toggled\<close>.\<close>

definition on_cpu_online_toggled :: "setters \<Rightarrow> window \<Rightarrow> bool \<Rightarrow> py_error + window" where
  "on_cpu_online_toggled S w checked =
     (if refreshing w then Inr w
      else
        (case map_of (settings w) (active_cpu w) of
           None \<Rightarrow> Inl KeyError
         | Some conf \<Rightarrow>
             Inr (w\<lparr>settings :=
                      for_conf (active_cpu w) (\<lambda>conf. online_set S conf checked) (settings w)\<rparr>)))"

text \<open>
  \<^verbatim>\<open>on_governor_changed\<close>; \<open>gov\<close> is \<^verbatim>\<open>self.gov_combo.currentData()\<close>.
\<close>

definition on_governor_changed :: "setters \<Rightarrow> window \<Rightarrow> int \<Rightarrow> string \<Rightarrow> window" where
  "on_governor_changed S w index gov =
     (if refreshing w \<or> index < 0 then w
      else if toall w
      then w\<lparr>settings := for_all_confs (\<lambda>conf. governor_set S conf gov) (settings w)\<rparr>
      else w\<lparr>settings := for_conf (active_cpu w) (\<lambda>conf. governor_set S conf gov) (settings w)\<rparr>)"

text \<open>
  \<^verbatim>\<open>on_energy_pref_changed\<close>; \<open>pref\<close> is \<^verbatim>\<open>self.energy_combo.currentData()\<close>.
\<close>

definition on_energy_pref_changed :: "setters \<Rightarrow> window \<Rightarrow> int \<Rightarrow> string \<Rightarrow> window" where
  "on_energy_pref_changed S w index pref =
     (if refreshing w \<or> index < 0 then w
      else if energy_per_cpu w
      then w\<lparr>settings :=
               for_conf (active_cpu w) (\<lambda>conf. energy_pref_set S conf pref) (settings w)\<rparr>
      else w\<lparr>settings := for_all_confs (\<lambda>conf. energy_pref_set S conf pref) (settings w)\<rparr>)"

subsection \<open>Instances used in the examples\<close>

text \<open>
  Modelled from the spec: the setters of \<^verbatim>\<open>CpuSettings\<close> (config.py is not among the
  sources).  The governor and the energy preference are set only to a value the CPU
  offers, the online flag unconditionally.  The frequency pair is clamped into the
  hardware limits; if the clamped minimum then exceeds the clamped maximum, the bound
  that was not moved is pushed by the delta requested of the other one and clamped again
  (nothing is stored when there is no stored pair to take the delta from).
\<close>

definition clamp :: "real \<times> real \<Rightarrow> real \<Rightarrow> real" where
  "clamp lims x = max (fst lims) (min (snd lims) x)"

definition spec_freqs_set :: "cpu_settings \<Rightarrow> real \<times> real \<Rightarrow> cpu_settings" where
  "spec_freqs_set conf fr =
     (let lims = hw_lims conf; a = clamp lims (fst fr); b = clamp lims (snd fr) in
      if a \<le> b then conf\<lparr>freqs := (Some a, Some b)\<rparr>
      else
        (case freqs conf of
           (Some omin, Some omax) \<Rightarrow>
             if a \<noteq> omin then conf\<lparr>freqs := (Some a, Some (clamp lims (omax + (a - omin))))\<rparr>
             else conf\<lparr>freqs := (Some (clamp lims (omin + (b - omax))), Some b)\<rparr>
         | _ \<Rightarrow> conf))"

definition spec_setters :: setters where
  "spec_setters =
     \<lparr>freqs_set = spec_freqs_set,
      governor_set = (\<lambda>conf gov.
         if gov \<in> set (governors conf) then conf\<lparr>governor := Some gov\<rparr> else conf),
      energy_pref_set = (\<lambda>conf pref.
         if pref \<in> set (energy_prefs conf) then conf\<lparr>energy_pref := Some pref\<rparr> else conf),
      online_set = (\<lambda>conf b. conf\<lparr>online := b\<rparr>)\<rparr>"

text \<open>
  Modelled from the spec: an edited field holds a value.  A pair of settings read from
  the hardware has no edited field, and the setters store only values the CPU offers
  (lemmas \<open>unedited_values_present\<close>, \<open>spec_setters_values_present\<close>).
\<close>

definition values_present :: "cpu_settings \<Rightarrow> bool" where
  "values_present conf \<longleftrightarrow>
     (setting_changed conf Freqs \<longrightarrow> fst (freqs conf) \<noteq> None \<and> snd (freqs conf) \<noteq> None) \<and>
     (setting_changed conf Governor \<longrightarrow> governor conf \<noteq> None) \<and>
     (setting_changed conf EnergyPref \<longrightarrow>
        energy_pref conf \<noteq> None \<and> energy_pref conf \<noteq> Some [])"

text \<open>
  A helper whose answers do not depend on its history: the online and the offline CPUs,
  the CPUs that may go offline, and the integer returned for each privileged call.
\<close>

definition fixed_helper :: "cpu list \<Rightarrow> cpu list \<Rightarrow> cpu list \<Rightarrow> (call \<Rightarrow> int) \<Rightarrow> unit helper" where
  "fixed_helper onl offl may_off res =
     \<lparr>isauthorized = (\<lambda>h. True),
      get_cpus_present = (\<lambda>h. onl @ offl),
      get_cpus_online = (\<lambda>h. onl),
      get_cpus_offline = (\<lambda>h. offl),
      cpu_allowed_offline = (\<lambda>h c. c \<in> set may_off),
      privileged = (\<lambda>h c. (res c, h))\<rparr>"

text \<open>
  A CPU as read from the hardware: online, 1000 to 2000 MHz within limits of 800 to
  3200 MHz, governor and energy preference set, nothing edited.
\<close>

definition fresh_conf :: cpu_settings where
  "fresh_conf =
     \<lparr>online = True, freqs = (Some 1000, Some 2000), governor = Some ''powersave'',
      energy_pref = Some ''balance_power'',
      base_online = True, base_freqs = (Some 1000, Some 2000),
      base_governor = Some ''powersave'', base_energy_pref = Some ''balance_power'',
      hw_lims = (800, 3200), governors = [''performance'', ''powersave''],
      energy_prefs = [''performance'', ''balance_power'']\<rparr>"

text \<open>A window over two such CPUs, CPU 1 selected, both broadcast toggles off.\<close>

definition demo_window :: window where
  "demo_window =
     \<lparr>settings = [(0, fresh_conf), (1, fresh_conf)], toall = False, energy_per_cpu = False,
      refreshing = False, active_cpu = 1\<rparr>"

section \<open>The account of an apply pass\<close>

text \<open>
  Every step of the pass appends its call, if it makes one, to the log and adds the
  call's contribution to the sum; a step skipped for a missing value adds \<open>- 1\<close>.
\<close>

lemma changed_cpus_lookup: "c \<in> set (changed_cpus sts) \<Longrightarrow> map_of sts c \<noteq> None"
  by (auto simp: changed_cpus_def map_of_eq_None_iff intro: rev_image_eqI)

lemma helper_call_effect:
  "\<exists>r h'. helper_call H cl s = (r, (h', snd s @ [(cl, r)]))"
  by (simp add: helper_call_def split: prod.splits)

lemma set_cpu_online_effect:
  "\<exists>ev. snd (snd (set_cpu_online H sts c s)) = snd s @ ev \<and>
        fst (set_cpu_online H sts c s) = sum_list (map contribution ev) \<and>
        (\<forall>e\<in>set ev. call_cpu (fst e) = c \<and> transition_call (fst e))"
  using helper_call_effect[of H "SetCpuOnline c" s] helper_call_effect[of H "SetCpuOffline c" s]
  by (auto simp: set_cpu_online_def split: option.splits)

lemma set_cpu_governor_effect:
  assumes "map_of sts c = Some conf"
  shows "\<exists>ev. snd (snd (set_cpu_governor H sts c s)) = snd s @ ev \<and>
        fst (set_cpu_governor H sts c s) =
          sum_list (map contribution ev) - (if governor conf = None then 1 else 0) \<and>
        (\<forall>e\<in>set ev. call_cpu (fst e) = c \<and> \<not> transition_call (fst e))"
proof (cases "governor conf")
  case None
  with assms show ?thesis by (simp add: set_cpu_governor_def)
next
  case (Some gov)
  obtain r h' where "helper_call H (UpdateCpuGovernor c gov) s = (r, (h', snd s @ [(UpdateCpuGovernor c gov, r)]))"
    using helper_call_effect[of H "UpdateCpuGovernor c gov" s] by auto
  with assms Some show ?thesis by (simp add: set_cpu_governor_def)
qed

lemma set_cpu_energy_preferences_effect:
  assumes "map_of sts c = Some conf"
  shows "\<exists>ev. snd (snd (set_cpu_energy_preferences H avail sts c s)) = snd s @ ev \<and>
        fst (set_cpu_energy_preferences H avail sts c s) =
          sum_list (map contribution ev) -
            (if avail \<and> (energy_pref conf = None \<or> energy_pref conf = Some []) then 1 else 0) \<and>
        (\<forall>e\<in>set ev. call_cpu (fst e) = c \<and> \<not> transition_call (fst e))"
proof (cases "avail \<and> energy_pref conf \<noteq> None \<and> energy_pref conf \<noteq> Some []")
  case False
  with assms show ?thesis by (auto simp: set_cpu_energy_preferences_def split: option.splits)
next
  case True
  then obtain pref where p: "energy_pref conf = Some pref" "pref \<noteq> []" by auto
  obtain r h' where "helper_call H (UpdateCpuEnergyPrefs c pref) s = (r, (h', snd s @ [(UpdateCpuEnergyPrefs c pref, r)]))"
    using helper_call_effect[of H "UpdateCpuEnergyPrefs c pref" s] by auto
  with assms True p show ?thesis by (simp add: set_cpu_energy_preferences_def)
qed

lemma set_cpu_frequencies_effect:
  assumes "map_of sts c = Some conf"
  shows "\<exists>ev. snd (snd (set_cpu_frequencies H sts c s)) = snd s @ ev \<and>
        fst (set_cpu_frequencies H sts c s) =
          sum_list (map contribution ev) -
            (if fst (freqs conf) = None \<or> snd (freqs conf) = None then 1 else 0) \<and>
        (\<forall>e\<in>set ev. call_cpu (fst e) = c \<and> \<not> transition_call (fst e))"
proof (cases "fst (freqs conf) = None \<or> snd (freqs conf) = None")
  case True
  with assms show ?thesis
    by (auto simp: set_cpu_frequencies_def freqs_scaled_def split: option.splits prod.splits)
next
  case False
  then obtain a b where ab: "freqs_scaled conf = (Some a, Some b)"
    by (auto simp: freqs_scaled_def)
  obtain r h' where "helper_call H (UpdateCpuSettings c a b) s = (r, (h', snd s @ [(UpdateCpuSettings c a b, r)]))"
    using helper_call_effect[of H "UpdateCpuSettings c a b" s] by auto
  with assms False ab show ?thesis by (simp add: set_cpu_frequencies_def)
qed

lemma extends_refl: "extends acc acc [] 0"
  by (simp add: extends_def)

lemma extends_trans:
  "extends a b ev1 m1 \<Longrightarrow> extends b c ev2 m2 \<Longrightarrow> extends a c (ev1 @ ev2) (m1 + m2)"
  by (simp add: extends_def)

lemma add_step_extends:
  assumes "snd (snd (f (snd acc))) = snd (snd acc) @ ev"
    and "fst (f (snd acc)) = sum_list (map contribution ev) - int m"
  shows "extends acc (add_step f acc) ev m"
  using assms by (cases "f (snd acc)") (simp add: extends_def add_step_def)

lemma online_step_extends:
  "\<exists>ev. extends acc (add_step (set_cpu_online H sts c) acc) ev 0 \<and>
        (\<forall>e\<in>set ev. call_cpu (fst e) = c \<and> transition_call (fst e))"
proof -
  obtain ev where ev: "snd (snd (set_cpu_online H sts c (snd acc))) = snd (snd acc) @ ev"
    "fst (set_cpu_online H sts c (snd acc)) = sum_list (map contribution ev)"
    "\<forall>e\<in>set ev. call_cpu (fst e) = c \<and> transition_call (fst e)"
    using set_cpu_online_effect[of H sts c "snd acc"] by auto
  have "extends acc (add_step (set_cpu_online H sts c) acc) ev 0"
    by (rule add_step_extends) (simp_all add: ev)
  with ev(3) show ?thesis by auto
qed

lemma freqs_step_extends:
  assumes "map_of sts c = Some conf"
  shows "\<exists>ev. extends acc (add_step (set_cpu_frequencies H sts c) acc) ev
            (if fst (freqs conf) = None \<or> snd (freqs conf) = None then 1 else 0) \<and>
        (\<forall>e\<in>set ev. call_cpu (fst e) = c \<and> \<not> transition_call (fst e))"
proof -
  obtain ev where ev: "snd (snd (set_cpu_frequencies H sts c (snd acc))) = snd (snd acc) @ ev"
    "fst (set_cpu_frequencies H sts c (snd acc)) = sum_list (map contribution ev) -
       (if fst (freqs conf) = None \<or> snd (freqs conf) = None then 1 else 0)"
    "\<forall>e\<in>set ev. call_cpu (fst e) = c \<and> \<not> transition_call (fst e)"
    using set_cpu_frequencies_effect[OF assms, of H "snd acc"] by auto
  have "extends acc (add_step (set_cpu_frequencies H sts c) acc) ev
      (if fst (freqs conf) = None \<or> snd (freqs conf) = None then 1 else 0)"
    by (rule add_step_extends) (simp_all add: ev)
  with ev(3) show ?thesis by auto
qed

lemma governor_step_extends:
  assumes "map_of sts c = Some conf"
  shows "\<exists>ev. extends acc (add_step (set_cpu_governor H sts c) acc) ev
            (if governor conf = None then 1 else 0) \<and>
        (\<forall>e\<in>set ev. call_cpu (fst e) = c \<and> \<not> transition_call (fst e))"
proof -
  obtain ev where ev: "snd (snd (set_cpu_governor H sts c (snd acc))) = snd (snd acc) @ ev"
    "fst (set_cpu_governor H sts c (snd acc)) = sum_list (map contribution ev) -
       (if governor conf = None then 1 else 0)"
    "\<forall>e\<in>set ev. call_cpu (fst e) = c \<and> \<not> transition_call (fst e)"
    using set_cpu_governor_effect[OF assms, of H "snd acc"] by auto
  have "extends acc (add_step (set_cpu_governor H sts c) acc) ev
      (if governor conf = None then 1 else 0)"
    by (rule add_step_extends) (simp_all add: ev)
  with ev(3) show ?thesis by auto
qed

lemma energy_step_extends:
  assumes "map_of sts c = Some conf"
  shows "\<exists>ev. extends acc (add_step (set_cpu_energy_preferences H avail sts c) acc) ev
            (if avail \<and> (energy_pref conf = None \<or> energy_pref conf = Some []) then 1 else 0) \<and>
        (\<forall>e\<in>set ev. call_cpu (fst e) = c \<and> \<not> transition_call (fst e))"
proof -
  obtain ev where ev:
    "snd (snd (set_cpu_energy_preferences H avail sts c (snd acc))) = snd (snd acc) @ ev"
    "fst (set_cpu_energy_preferences H avail sts c (snd acc)) = sum_list (map contribution ev) -
       (if avail \<and> (energy_pref conf = None \<or> energy_pref conf = Some []) then 1 else 0)"
    "\<forall>e\<in>set ev. call_cpu (fst e) = c \<and> \<not> transition_call (fst e)"
    using set_cpu_energy_preferences_effect[OF assms, of H avail "snd acc"] by auto
  have "extends acc (add_step (set_cpu_energy_preferences H avail sts c) acc) ev
      (if avail \<and> (energy_pref conf = None \<or> energy_pref conf = Some []) then 1 else 0)"
    by (rule add_step_extends) (simp_all add: ev)
  with ev(3) show ?thesis by auto
qed

lemma apply_cpu_extends:
  assumes conf: "map_of sts c = Some conf"
  shows "\<exists>ev. extends acc (apply_cpu H avail sts acc c) ev (missing_count avail conf) \<and>
        (\<forall>e\<in>set ev. call_cpu (fst e) = c \<and> (\<not> online conf \<longrightarrow> transition_call (fst e)))"
proof -
  define a1 where "a1 = add_step (set_cpu_online H sts c) acc"
  define a2 where "a2 = (if setting_changed conf Freqs
      then add_step (set_cpu_frequencies H sts c) a1 else a1)"
  define a3 where "a3 = (if setting_changed conf Governor
      then add_step (set_cpu_governor H sts c) a2 else a2)"
  define a4 where "a4 = (if setting_changed conf EnergyPref
      then add_step (set_cpu_energy_preferences H avail sts c) a3 else a3)"
  define m2 :: nat where "m2 = (if setting_changed conf Freqs \<and>
      (fst (freqs conf) = None \<or> snd (freqs conf) = None) then 1 else 0)"
  define m3 :: nat where "m3 = (if setting_changed conf Governor \<and> governor conf = None then 1 else 0)"
  define m4 :: nat where "m4 = (if setting_changed conf EnergyPref \<and> avail \<and>
      (energy_pref conf = None \<or> energy_pref conf = Some []) then 1 else 0)"
  obtain e1 where e1: "extends acc a1 e1 0"
    "\<forall>e\<in>set e1. call_cpu (fst e) = c \<and> transition_call (fst e)"
    unfolding a1_def using online_step_extends[of acc H sts c] by auto
  have "\<exists>ev. extends a1 a2 ev m2 \<and> (\<forall>e\<in>set ev. call_cpu (fst e) = c \<and> \<not> transition_call (fst e))"
  proof (cases "setting_changed conf Freqs")
    case True
    then show ?thesis unfolding a2_def m2_def
      using freqs_step_extends[OF conf, of a1 H] by simp
  next
    case False
    then show ?thesis unfolding a2_def m2_def using extends_refl[of a1] by auto
  qed
  then obtain e2 where e2: "extends a1 a2 e2 m2"
    "\<forall>e\<in>set e2. call_cpu (fst e) = c \<and> \<not> transition_call (fst e)" by auto
  have "\<exists>ev. extends a2 a3 ev m3 \<and> (\<forall>e\<in>set ev. call_cpu (fst e) = c \<and> \<not> transition_call (fst e))"
  proof (cases "setting_changed conf Governor")
    case True
    then show ?thesis unfolding a3_def m3_def
      using governor_step_extends[OF conf, of a2 H] by simp
  next
    case False
    then show ?thesis unfolding a3_def m3_def using extends_refl[of a2] by auto
  qed
  then obtain e3 where e3: "extends a2 a3 e3 m3"
    "\<forall>e\<in>set e3. call_cpu (fst e) = c \<and> \<not> transition_call (fst e)" by auto
  have "\<exists>ev. extends a3 a4 ev m4 \<and> (\<forall>e\<in>set ev. call_cpu (fst e) = c \<and> \<not> transition_call (fst e))"
  proof (cases "setting_changed conf EnergyPref")
    case True
    then show ?thesis unfolding a4_def m4_def
      using energy_step_extends[OF conf, of a3 H avail] by simp
  next
    case False
    then show ?thesis unfolding a4_def m4_def using extends_refl[of a3] by auto
  qed
  then obtain e4 where e4: "extends a3 a4 e4 m4"
    "\<forall>e\<in>set e4. call_cpu (fst e) = c \<and> \<not> transition_call (fst e)" by auto
  show ?thesis
  proof (cases "online conf")
    case False
    then have "apply_cpu H avail sts acc c = a1"
      by (simp add: apply_cpu_def conf a1_def)
    moreover from False have "missing_count avail conf = 0" by (simp add: missing_count_def)
    ultimately show ?thesis using e1 by auto
  next
    case True
    then have r: "apply_cpu H avail sts acc c = a4"
      by (simp add: apply_cpu_def conf a1_def a2_def a3_def a4_def Let_def)
    from True have m: "missing_count avail conf = 0 + m2 + m3 + m4"
      by (simp add: missing_count_def m2_def m3_def m4_def)
    have "extends acc a4 (((e1 @ e2) @ e3) @ e4) (0 + m2 + m3 + m4)"
      using extends_trans[OF extends_trans[OF extends_trans[OF e1(1) e2(1)] e3(1)] e4(1)] .
    moreover have "\<forall>e\<in>set (((e1 @ e2) @ e3) @ e4). call_cpu (fst e) = c"
      using e1(2) e2(2) e3(2) e4(2) by auto
    ultimately show ?thesis using True unfolding r m by blast
  qed
qed

lemma foldl_apply_cpu_extends:
  assumes "\<forall>c\<in>set cs. map_of sts c \<noteq> None"
  shows "\<exists>ev. extends acc (foldl (apply_cpu H avail sts) acc cs) ev
            (sum_list (map (missing_of avail sts) cs)) \<and>
        (\<forall>e\<in>set ev. \<forall>conf. map_of sts (call_cpu (fst e)) = Some conf \<longrightarrow> \<not> online conf \<longrightarrow>
           transition_call (fst e))"
  using assms
proof (induction cs arbitrary: acc)
  case Nil
  then show ?case using extends_refl[of acc] by auto
next
  case (Cons c cs)
  then obtain conf where conf: "map_of sts c = Some conf" by auto
  obtain e1 where e1: "extends acc (apply_cpu H avail sts acc c) e1 (missing_count avail conf)"
    "\<forall>e\<in>set e1. call_cpu (fst e) = c \<and> (\<not> online conf \<longrightarrow> transition_call (fst e))"
    using apply_cpu_extends[OF conf, of acc H avail] by auto
  obtain e2 where e2: "extends (apply_cpu H avail sts acc c)
      (foldl (apply_cpu H avail sts) (apply_cpu H avail sts acc c) cs) e2
      (sum_list (map (missing_of avail sts) cs))"
    "\<forall>e\<in>set e2. \<forall>conf. map_of sts (call_cpu (fst e)) = Some conf \<longrightarrow> \<not> online conf \<longrightarrow>
           transition_call (fst e)"
    using Cons.IH[of "apply_cpu H avail sts acc c"] Cons.prems by auto
  have "extends acc (foldl (apply_cpu H avail sts) acc (c # cs)) (e1 @ e2)
      (missing_count avail conf + sum_list (map (missing_of avail sts) cs))"
    using extends_trans[OF e1(1) e2(1)] by simp
  moreover have "missing_of avail sts c = missing_count avail conf"
    by (simp add: missing_of_def conf)
  moreover have "\<forall>e\<in>set (e1 @ e2). \<forall>conf. map_of sts (call_cpu (fst e)) = Some conf \<longrightarrow>
      \<not> online conf \<longrightarrow> transition_call (fst e)"
    using e1(2) e2(2) conf by auto
  ultimately show ?case
    by (intro exI[of _ "e1 @ e2"]) simp
qed

lemma apply_pass_account:
  assumes "isauthorized H h" and "on_apply_clicked H avail sts h = (out, ret, (h', tr))"
  shows "out = report ret"
    and "ret = sum_list (map contribution tr) - int (missing_total avail sts)"
    and "\<And>e conf. e \<in> set tr \<Longrightarrow> map_of sts (call_cpu (fst e)) = Some conf \<Longrightarrow> \<not> online conf \<Longrightarrow>
           transition_call (fst e)"
proof -
  define acc where "acc = foldl (apply_cpu H avail sts) (0, (h, [])) (changed_cpus sts)"
  from assms have eq: "out = report (fst acc)" "ret = fst acc" "tr = snd (snd acc)"
    by (auto simp: on_apply_clicked_def acc_def split: prod.splits)
  obtain ev where ev: "extends (0, (h, [])) acc ev (missing_total avail sts)"
    "\<forall>e\<in>set ev. \<forall>conf. map_of sts (call_cpu (fst e)) = Some conf \<longrightarrow> \<not> online conf \<longrightarrow>
           transition_call (fst e)"
    unfolding acc_def missing_total_def
    using foldl_apply_cpu_extends[of "changed_cpus sts" sts "(0, (h, []))" H avail]
      changed_cpus_lookup[of _ sts] by auto
  from ev(1) have tr: "tr = ev" by (simp add: extends_def eq)
  show "out = report ret" by (simp add: eq)
  show "ret = sum_list (map contribution tr) - int (missing_total avail sts)"
    using ev(1) by (simp add: extends_def eq)
  show "\<And>e conf. e \<in> set tr \<Longrightarrow> map_of sts (call_cpu (fst e)) = Some conf \<Longrightarrow> \<not> online conf \<Longrightarrow>
           transition_call (fst e)"
    using ev(2) tr by blast
qed

lemma contribution_succeeded: "snd e = 0 \<Longrightarrow> contribution e = 0"
  by (cases e, cases "fst e") auto

lemma contribution_zero: "contribution e = 0 \<Longrightarrow> snd e = 0"
  by (cases e, cases "fst e") (auto split: if_splits)

lemma contribution_nonpos:
  "(transition_call (fst e) \<longrightarrow> snd e \<le> 0) \<Longrightarrow> contribution e \<le> 0"
  by (cases e, cases "fst e") auto

lemma sum_contribution_failed:
  "sum_list (map contribution tr) = sum_list (map contribution (filter failed tr))"
  by (induction tr) (auto simp: failed_def contribution_succeeded)

lemma sum_contribution_succeeded:
  "list_all (\<lambda>e. snd e = 0) tr \<Longrightarrow> sum_list (map contribution tr) = 0"
  by (induction tr) (auto simp: contribution_succeeded)

lemma sum_nonpos_zero:
  fixes tr :: "(call \<times> int) list"
  assumes "\<forall>e\<in>set tr. contribution e \<le> 0" and "sum_list (map contribution tr) = int m"
  shows "(\<forall>e\<in>set tr. contribution e = 0) \<and> m = 0"
  using assms
proof (induction tr arbitrary: m)
  case Nil
  then show ?case by simp
next
  case (Cons e tr)
  have le: "sum_list (map contribution tr) \<le> 0"
    using Cons.prems(1) by (intro sum_list_nonpos) auto
  have "contribution e \<le> 0" using Cons.prems(1) by simp
  with le Cons.prems(2) have z: "contribution e = 0" "sum_list (map contribution tr) = int 0" "m = 0"
    by auto
  from Cons.IH[OF _ z(2)] Cons.prems(1) z show ?case by auto
qed

lemma ERRORS_None:
  "ERRORS r = None \<longleftrightarrow> r \<notin> {- 11, - 12, - 13, - 23, - 24, - 25}"
  by (auto simp: ERRORS_def)

lemma missing_of_le_total:
  "c \<in> set (changed_cpus sts) \<Longrightarrow> missing_of avail sts c \<le> missing_total avail sts"
  unfolding missing_total_def by (rule member_le_sum_list) simp_all

lemmas pass_defs =
  on_apply_clicked_def changed_cpus_def changed_def apply_cpu_def add_step_def
  set_cpu_online_def set_cpu_frequencies_def set_cpu_governor_def
  set_cpu_energy_preferences_def helper_call_def fixed_helper_def is_online_def
  is_offline_def freqs_scaled_def report_def ERRORS_def fresh_conf_def

lemmas missing_defs =
  missing_total_def missing_of_def missing_count_def changed_cpus_def changed_def fresh_conf_def

section \<open>The replay of an apply pass\<close>

text \<open>
  The helper is deterministic and only privileged calls change its state, so the log of
  a pass determines the state in which each call was made.  Every step of the pass
  keeps the log replayable and logs a transition call only where it is justified.
\<close>

lemma state_after_snoc:
  "state_after H h (tr @ [(cl, r)]) = snd (privileged H (state_after H h tr) cl)"
  by (simp add: state_after_def)

lemma replayed_start: "replayed H sts h (h, [])"
  by (simp add: replayed_def state_after_def)

lemma replayed_helper_call:
  assumes inv: "replayed H sts h s" and j: "justified H sts (fst s) cl"
  shows "replayed H sts h (snd (helper_call H cl s))"
proof -
  obtain r g where p: "privileged H (fst s) cl = (r, g)" by (cases "privileged H (fst s) cl")
  have hc: "helper_call H cl s = (r, (g, snd s @ [(cl, r)]))"
    by (simp add: helper_call_def p)
  from inv have cur: "fst s = state_after H h (snd s)" by (simp add: replayed_def)
  have st: "g = state_after H h (snd s @ [(cl, r)])"
    using p cur by (simp add: state_after_snoc)
  have all: "justified H sts (state_after H h pre) cl' \<and>
      r' = fst (privileged H (state_after H h pre) cl')"
    if split: "snd s @ [(cl, r)] = pre @ (cl', r') # post" for pre cl' r' post
  proof (cases post rule: rev_cases)
    case Nil
    with split have "pre = snd s" "cl' = cl" "r' = r" by simp_all
    with j p cur show ?thesis by simp
  next
    case (snoc post' e)
    with split have "snd s = pre @ (cl', r') # post'" by simp
    with inv show ?thesis unfolding replayed_def by blast
  qed
  show ?thesis unfolding hc replayed_def using st all by simp
qed

lemma replayed_set_cpu_online:
  assumes "replayed H sts h s"
  shows "replayed H sts h (snd (set_cpu_online H sts c s))"
proof (cases "map_of sts c")
  case None
  with assms show ?thesis by (simp add: set_cpu_online_def)
next
  case (Some conf)
  have on: "is_offline H (fst s) c \<and> online conf \<Longrightarrow> justified H sts (fst s) (SetCpuOnline c)"
    by (simp add: justified_def Some)
  have off: "is_online H (fst s) c \<and> \<not> online conf \<and> cpu_allowed_offline H (fst s) c \<Longrightarrow>
      justified H sts (fst s) (SetCpuOffline c)"
    by (simp add: justified_def Some)
  show ?thesis
    using assms replayed_helper_call[OF assms on] replayed_helper_call[OF assms off]
    by (auto simp: set_cpu_online_def Some)
qed

lemma replayed_set_cpu_governor:
  assumes "replayed H sts h s"
  shows "replayed H sts h (snd (set_cpu_governor H sts c s))"
proof -
  have "replayed H sts h (snd (helper_call H (UpdateCpuGovernor c g) s))" for g
    using replayed_helper_call[OF assms, of "UpdateCpuGovernor c g"] by (simp add: justified_def)
  with assms show ?thesis
    by (simp add: set_cpu_governor_def case_prod_beta split: option.splits)
qed

lemma replayed_set_cpu_energy_preferences:
  assumes "replayed H sts h s"
  shows "replayed H sts h (snd (set_cpu_energy_preferences H avail sts c s))"
proof -
  have "replayed H sts h (snd (helper_call H (UpdateCpuEnergyPrefs c p) s))" for p
    using replayed_helper_call[OF assms, of "UpdateCpuEnergyPrefs c p"] by (simp add: justified_def)
  with assms show ?thesis
    by (simp add: set_cpu_energy_preferences_def case_prod_beta split: option.splits)
qed

lemma replayed_set_cpu_frequencies:
  assumes "replayed H sts h s"
  shows "replayed H sts h (snd (set_cpu_frequencies H sts c s))"
proof -
  have "replayed H sts h (snd (helper_call H (UpdateCpuSettings c a b) s))" for a b
    using replayed_helper_call[OF assms, of "UpdateCpuSettings c a b"] by (simp add: justified_def)
  with assms show ?thesis
    by (simp add: set_cpu_frequencies_def case_prod_beta split: option.splits prod.splits)
qed

lemma replayed_add_step:
  assumes "replayed H sts h (snd acc)" and "\<And>s. replayed H sts h s \<Longrightarrow> replayed H sts h (snd (f s))"
  shows "replayed H sts h (snd (add_step f acc))"
  using assms(2)[OF assms(1)] by (simp add: add_step_def case_prod_beta)

lemma replayed_apply_cpu:
  assumes "replayed H sts h (snd acc)"
  shows "replayed H sts h (snd (apply_cpu H avail sts acc c))"
proof (cases "map_of sts c")
  case None
  with assms show ?thesis by (simp add: apply_cpu_def)
next
  case (Some conf)
  define a1 where "a1 = add_step (set_cpu_online H sts c) acc"
  define a2 where "a2 = (if setting_changed conf Freqs
      then add_step (set_cpu_frequencies H sts c) a1 else a1)"
  define a3 where "a3 = (if setting_changed conf Governor
      then add_step (set_cpu_governor H sts c) a2 else a2)"
  define a4 where "a4 = (if setting_changed conf EnergyPref
      then add_step (set_cpu_energy_preferences H avail sts c) a3 else a3)"
  have r1: "replayed H sts h (snd a1)"
    unfolding a1_def by (rule replayed_add_step[OF assms]) (rule replayed_set_cpu_online)
  have r2: "replayed H sts h (snd a2)"
    unfolding a2_def using r1 replayed_add_step[OF r1, of "set_cpu_frequencies H sts c"]
    by (simp add: replayed_set_cpu_frequencies)
  have r3: "replayed H sts h (snd a3)"
    unfolding a3_def using r2 replayed_add_step[OF r2, of "set_cpu_governor H sts c"]
    by (simp add: replayed_set_cpu_governor)
  have r4: "replayed H sts h (snd a4)"
    unfolding a4_def
    using r3 replayed_add_step[OF r3, of "set_cpu_energy_preferences H avail sts c"]
    by (simp add: replayed_set_cpu_energy_preferences)
  have "apply_cpu H avail sts acc c = (if online conf then a4 else a1)"
    by (simp add: apply_cpu_def Some a1_def a2_def a3_def a4_def Let_def)
  with r1 r4 show ?thesis by simp
qed

lemma replayed_foldl:
  "replayed H sts h (snd acc) \<Longrightarrow>
   replayed H sts h (snd (foldl (apply_cpu H avail sts) acc cs))"
  by (induction cs arbitrary: acc) (simp_all add: replayed_apply_cpu)

lemma apply_pass_replayed:
  assumes "on_apply_clicked H avail sts h = (out, ret, (h', tr))"
  shows "replayed H sts h (h', tr)"
proof (cases "isauthorized H h")
  case False
  with assms have "h' = h" "tr = []" by (simp_all add: on_apply_clicked_def)
  then show ?thesis by (simp add: replayed_start)
next
  case True
  define acc where "acc = foldl (apply_cpu H avail sts) (0, (h, [])) (changed_cpus sts)"
  from assms True have "snd acc = (h', tr)"
    by (auto simp: on_apply_clicked_def acc_def split: prod.splits)
  moreover have "replayed H sts h (snd acc)"
    unfolding acc_def by (rule replayed_foldl) (simp add: replayed_start)
  ultimately show ?thesis by simp
qed

lemma replayed_split:
  assumes "replayed H sts h (h', tr)" and "tr = pre @ (cl, r) # post"
  shows "justified H sts (state_after H h pre) cl"
  using assms unfolding replayed_def by auto

text \<open>Settings whose edited fields hold values skip no step of the pass.\<close>

lemma values_present_missing: "values_present conf \<Longrightarrow> missing_count avail conf = 0"
  by (auto simp: values_present_def missing_count_def)

lemma values_present_total:
  assumes "list_all (\<lambda>(c, conf). values_present conf) sts"
  shows "missing_total avail sts = 0"
proof -
  have "missing_of avail sts c = 0" for c
  proof (cases "map_of sts c")
    case None
    then show ?thesis by (simp add: missing_of_def)
  next
    case (Some conf)
    then have "(c, conf) \<in> set sts" by (rule map_of_SomeD)
    with assms have "values_present conf" by (auto simp: list_all_iff)
    with Some show ?thesis by (simp add: missing_of_def values_present_missing)
  qed
  then show ?thesis by (simp add: missing_total_def)
qed

lemma unedited_values_present:
  assumes "freqs conf = base_freqs conf" and "governor conf = base_governor conf"
    and "energy_pref conf = base_energy_pref conf"
  shows "values_present conf"
  using assms by (simp add: values_present_def)

section \<open>The edit handlers on the dict\<close>

text \<open>
  What a handler leaves under each key: a broadcast applies the setter under every key,
  an edit of one CPU under that key only.
\<close>

lemma map_of_for_all_confs:
  "map_of (for_all_confs f sts) c = map_option f (map_of sts c)"
  by (induction sts) (auto simp: for_all_confs_def)

lemma map_of_for_conf:
  "map_of (for_conf k f sts) c = (if c = k then map_option f (map_of sts c) else map_of sts c)"
  by (induction sts) (auto simp: for_conf_def)

lemma keys_for_all_confs: "map fst (for_all_confs f sts) = map fst sts"
  by (induction sts) (auto simp: for_all_confs_def)

lemma keys_for_conf: "map fst (for_conf k f sts) = map fst sts"
  by (induction sts) (auto simp: for_conf_def)

lemma online_toggle_active_only:
  assumes "on_cpu_online_toggled S w checked = Inr w'" and "c \<noteq> active_cpu w"
  shows "map_of (settings w') c = map_of (settings w) c"
  using assms
  by (auto simp: on_cpu_online_toggled_def map_of_for_conf split: if_splits option.splits)

lemma governor_broadcast:
  assumes "\<not> refreshing w" and "0 \<le> index"
  shows "map_of (settings (on_governor_changed S w index gov)) c =
         (if toall w \<or> c = active_cpu w
          then map_option (\<lambda>conf. governor_set S conf gov) (map_of (settings w) c)
          else map_of (settings w) c)"
  using assms by (simp add: on_governor_changed_def map_of_for_all_confs map_of_for_conf)

lemma freqs_broadcast:
  "map_of (settings (update_settings_freqs S w k fmin fmax)) c =
         (if toall w \<or> c = k
          then map_option (\<lambda>conf. freqs_set S conf (fmin, fmax)) (map_of (settings w) c)
          else map_of (settings w) c)"
  by (simp add: update_settings_freqs_def map_of_for_all_confs map_of_for_conf)

text \<open>
  The setters modelled from the spec keep the invariant that an edited field holds a
  value, and the frequency setter leaves an ordered pair within the hardware limits.
\<close>

lemma spec_freqs_set_stored:
  "freqs (spec_freqs_set conf fr) = freqs conf \<or>
   (\<exists>a b. freqs (spec_freqs_set conf fr) = (Some a, Some b))"
  by (auto simp: spec_freqs_set_def Let_def split: option.splits prod.splits)

lemma spec_freqs_set_frame:
  "governor (spec_freqs_set conf fr) = governor conf"
  "energy_pref (spec_freqs_set conf fr) = energy_pref conf"
  "base_freqs (spec_freqs_set conf fr) = base_freqs conf"
  "base_governor (spec_freqs_set conf fr) = base_governor conf"
  "base_energy_pref (spec_freqs_set conf fr) = base_energy_pref conf"
  "hw_lims (spec_freqs_set conf fr) = hw_lims conf"
  by (auto simp: spec_freqs_set_def Let_def split: option.splits prod.splits)

lemma spec_setters_values_present:
  assumes "values_present conf" and "[] \<notin> set (energy_prefs conf)"
  shows "values_present (freqs_set spec_setters conf fr)"
    and "values_present (governor_set spec_setters conf gov)"
    and "values_present (energy_pref_set spec_setters conf pref)"
    and "values_present (online_set spec_setters conf b)"
proof -
  show "values_present (freqs_set spec_setters conf fr)"
    using assms(1) spec_freqs_set_stored[of conf fr]
    by (auto simp: values_present_def spec_setters_def spec_freqs_set_frame)
  show "values_present (governor_set spec_setters conf gov)"
    using assms(1) by (auto simp: values_present_def spec_setters_def)
  show "values_present (energy_pref_set spec_setters conf pref)"
    using assms by (auto simp: values_present_def spec_setters_def)
  show "values_present (online_set spec_setters conf b)"
    using assms(1) by (auto simp: values_present_def spec_setters_def)
qed

lemma clamp_within: "fst lims \<le> snd lims \<Longrightarrow> fst lims \<le> clamp lims x \<and> clamp lims x \<le> snd lims"
  by (auto simp: clamp_def)

lemma clamp_mono: "x \<le> y \<Longrightarrow> clamp lims x \<le> clamp lims y"
  by (auto simp: clamp_def)

lemma spec_freqs_set_ordered:
  assumes "fst (hw_lims conf) \<le> snd (hw_lims conf)"
    and "freqs conf = (Some omin, Some omax)" and "omin \<le> omax"
  shows "\<exists>a b. freqs (spec_freqs_set conf fr) = (Some a, Some b) \<and>
           fst (hw_lims conf) \<le> a \<and> a \<le> b \<and> b \<le> snd (hw_lims conf)"
proof -
  let ?l = "hw_lims conf"
  let ?a = "clamp ?l (fst fr)" and ?b = "clamp ?l (snd fr)"
  note w = clamp_within[OF assms(1)]
  show ?thesis
  proof (cases "?a \<le> ?b")
    case True
    then show ?thesis using w[of "fst fr"] w[of "snd fr"]
      by (simp add: spec_freqs_set_def Let_def)
  next
    case False
    show ?thesis
    proof (cases "?a = omin")
      case neq: False
      have "?a \<le> clamp ?l (omax + (?a - omin))"
        using assms(1,3) w[of "fst fr"] by (auto simp: clamp_def)
      with False neq show ?thesis
        using w[of "fst fr"] w[of "omax + (?a - omin)"]
        by (simp add: spec_freqs_set_def Let_def assms(2))
    next
      case True
      have "clamp ?l (omin + (?b - omax)) \<le> ?b"
        using assms(1,3) w[of "snd fr"] by (auto simp: clamp_def)
      with False True show ?thesis
        using w[of "snd fr"] w[of "omin + (?b - omax)"]
        by (simp add: spec_freqs_set_def Let_def assms(2))
    qed
  qed
qed

lemma handed_pair_ordered_after_clamp:
  assumes "lo \<le> hi" and "fmin \<le> rnd (fmin + 10)"
  shows "clamp (lo, hi) fmin \<le> clamp (lo, hi) (if fmax < fmin then min (rnd (fmin + 10)) hi else fmax)"
  using assms by (auto simp: clamp_def)

text \<open>
  \<^verbatim>\<open>_on_freq_changed\<close> never moves the minimum: the branch \<^verbatim>\<open>elif fmax < fmin\<close> repeats the
  condition of the \<^verbatim>\<open>if\<close> before it and is not reached.
\<close>

lemma freq_changed_keeps_min:
  assumes "on_freq_changed rnd S w fmin fmax = Inr (w', p, q)"
  shows "p = fmin"
  using assms
  by (auto simp: on_freq_changed_def Let_def split: option.splits prod.splits if_splits)

section \<open>The claims\<close>

text \<open>
  C8.  If no CPU's settings differ from their baseline, the apply pass (the caller being
  authorized) issues no privileged call, leaves the helper as it was and returns 0, which
  is reported as success.
\<close>

theorem apply_without_changes:
  assumes "isauthorized H h" and "list_all (\<lambda>(c, conf). \<not> changed conf) sts"
  shows "on_apply_clicked H avail sts h = (Success, 0, (h, []))"
proof -
  from assms(2) have "filter (\<lambda>(c, conf). changed conf) sts = []"
    by (auto simp: list_all_iff filter_empty_conv)
  then have "changed_cpus sts = []" by (simp add: changed_cpus_def)
  with assms(1) show ?thesis by (simp add: on_apply_clicked_def report_def)
qed

theorem apply_without_changes_witness:
  "isauthorized (fixed_helper [0, 1] [] [1] (\<lambda>cl. 7)) () \<and>
   list_all (\<lambda>(c, conf). \<not> changed conf) [(0, fresh_conf), (1, fresh_conf)] \<and>
   on_apply_clicked (fixed_helper [0, 1] [] [1] (\<lambda>cl. 7)) True [(0, fresh_conf), (1, fresh_conf)] ()
     = (Success, 0, ((), []))"
proof -
  have a: "isauthorized (fixed_helper [0, 1] [] [1] (\<lambda>cl. 7)) ()"
    by (simp add: fixed_helper_def)
  have b: "list_all (\<lambda>(c, conf). \<not> changed conf) [(0, fresh_conf), (1, fresh_conf)]"
    by (simp add: changed_def fresh_conf_def)
  from a b apply_without_changes[OF a b, of True] show ?thesis by blast
qed

text \<open>
  C2.  For a CPU whose target online value is false, the log of an apply pass holds no
  frequency, governor or energy-preference call for that CPU, whatever fields of it
  differ from the baseline.
\<close>

theorem offline_target_no_setting_calls:
  assumes "on_apply_clicked H avail sts h = (out, ret, (h', tr))"
    and "map_of sts c = Some conf" and "\<not> online conf"
  shows "(\<forall>a b r. (UpdateCpuSettings c a b, r) \<notin> set tr) \<and>
         (\<forall>g r. (UpdateCpuGovernor c g, r) \<notin> set tr) \<and>
         (\<forall>p r. (UpdateCpuEnergyPrefs c p, r) \<notin> set tr)"
proof (cases "isauthorized H h")
  case False
  with assms(1) have "tr = []" by (simp add: on_apply_clicked_def)
  then show ?thesis by simp
next
  case True
  have "transition_call (fst e)" if "e \<in> set tr" "call_cpu (fst e) = c" for e
    using apply_pass_account(3)[OF True assms(1), of e conf] that assms(2,3) by simp
  then show ?thesis by fastforce
qed

theorem offline_target_no_setting_calls_witness:
  "on_apply_clicked (fixed_helper [0, 1] [] [1] (\<lambda>cl. 0)) True
      [(0, fresh_conf), (1, fresh_conf\<lparr>online := False, governor := Some ''performance''\<rparr>)] ()
     = (Success, 0, ((), [(SetCpuOffline 1, 0)])) \<and>
   map_of [(0, fresh_conf), (1, fresh_conf\<lparr>online := False, governor := Some ''performance''\<rparr>)] (1::cpu)
     = Some (fresh_conf\<lparr>online := False, governor := Some ''performance''\<rparr>) \<and>
   \<not> online (fresh_conf\<lparr>online := False, governor := Some ''performance''\<rparr>) \<and>
   setting_changed (fresh_conf\<lparr>online := False, governor := Some ''performance''\<rparr>) Governor \<and>
   (\<forall>a b r. (UpdateCpuSettings 1 a b, r) \<notin> set [(SetCpuOffline 1, 0::int)]) \<and>
   (\<forall>g r. (UpdateCpuGovernor 1 g, r) \<notin> set [(SetCpuOffline 1, 0::int)]) \<and>
   (\<forall>p r. (UpdateCpuEnergyPrefs 1 p, r) \<notin> set [(SetCpuOffline 1, 0::int)])"
proof -
  let ?H = "fixed_helper [0, 1] [] [1] (\<lambda>cl. 0)"
  let ?conf = "fresh_conf\<lparr>online := False, governor := Some ''performance''\<rparr>"
  let ?sts = "[(0::cpu, fresh_conf), (1, ?conf)]"
  have run: "on_apply_clicked ?H True ?sts () = (Success, 0, ((), [(SetCpuOffline 1, 0)]))"
    by (simp add: on_apply_clicked_def changed_cpus_def changed_def fresh_conf_def apply_cpu_def
        add_step_def set_cpu_online_def helper_call_def fixed_helper_def is_online_def
        is_offline_def report_def)
  have look: "map_of ?sts 1 = Some ?conf" by simp
  have off: "\<not> online ?conf" by simp
  have ch: "setting_changed ?conf Governor" by (simp add: fresh_conf_def)
  from offline_target_no_setting_calls[OF run look off] run look off ch show ?thesis by blast
qed

text \<open>
  C4.  In an apply pass, a call to \<^verbatim>\<open>set_cpu_online\<close> is logged only for a CPU whose target
  is online and which the helper reported offline in the state the call was made in; a
  call to \<^verbatim>\<open>set_cpu_offline\<close> only for a CPU whose target is offline and which the helper,
  in that state, reported online and allowed to go offline.  For a CPU whose target is
  offline and which the helper never allows offline during the pass, the log holds no
  call at all and no step is skipped for a missing value: with the sum of the pass being
  the contributions of the logged calls less the skipped steps, that CPU adds 0.
\<close>

theorem transitions_only_on_disagreement:
  assumes "on_apply_clicked H avail sts h = (out, ret, (h', tr))"
  shows "(\<forall>pre c r post. tr = pre @ (SetCpuOnline c, r) # post \<longrightarrow>
            (\<exists>conf. map_of sts c = Some conf \<and> online conf) \<and>
            is_offline H (state_after H h pre) c) \<and>
         (\<forall>pre c r post. tr = pre @ (SetCpuOffline c, r) # post \<longrightarrow>
            (\<exists>conf. map_of sts c = Some conf \<and> \<not> online conf) \<and>
            is_online H (state_after H h pre) c \<and>
            cpu_allowed_offline H (state_after H h pre) c) \<and>
         (\<forall>c conf. map_of sts c = Some conf \<and> \<not> online conf \<and>
            (\<forall>pre post. tr = pre @ post \<longrightarrow> \<not> cpu_allowed_offline H (state_after H h pre) c) \<longrightarrow>
            filter (\<lambda>e. call_cpu (fst e) = c) tr = [] \<and> missing_of avail sts c = 0) \<and>
         (isauthorized H h \<longrightarrow>
            ret = sum_list (map contribution tr) - int (missing_total avail sts))"
proof -
  note rep = apply_pass_replayed[OF assms]
  have on: "(\<exists>conf. map_of sts c = Some conf \<and> online conf) \<and>
      is_offline H (state_after H h pre) c"
    if "tr = pre @ (SetCpuOnline c, r) # post" for pre c r post
    using replayed_split[OF rep that] by (auto simp: justified_def split: option.splits)
  have off: "(\<exists>conf. map_of sts c = Some conf \<and> \<not> online conf) \<and>
      is_online H (state_after H h pre) c \<and> cpu_allowed_offline H (state_after H h pre) c"
    if "tr = pre @ (SetCpuOffline c, r) # post" for pre c r post
    using replayed_split[OF rep that] by (auto simp: justified_def split: option.splits)
  have skipped: "filter (\<lambda>e. call_cpu (fst e) = c) tr = [] \<and> missing_of avail sts c = 0"
    if conf: "map_of sts c = Some conf" and target: "\<not> online conf"
      and never: "\<forall>pre post. tr = pre @ post \<longrightarrow> \<not> cpu_allowed_offline H (state_after H h pre) c"
    for c conf
  proof -
    have "call_cpu (fst e) \<noteq> c" if e: "e \<in> set tr" for e
    proof
      assume c: "call_cpu (fst e) = c"
      have auth: "isauthorized H h"
      proof (rule ccontr)
        assume "\<not> isauthorized H h"
        with assms have "tr = []" by (simp add: on_apply_clicked_def)
        with e show False by simp
      qed
      from apply_pass_account(3)[OF auth assms e, of conf] c conf target
      have t: "transition_call (fst e)" by simp
      from e obtain pre post where sp: "tr = pre @ e # post" by (auto dest: split_list)
      obtain cl r where er: "e = (cl, r)" by (cases e)
      from t c er have "cl = SetCpuOnline c \<or> cl = SetCpuOffline c" by (cases cl) auto
      then show False
      proof
        assume "cl = SetCpuOnline c"
        with on[of pre c r post] sp er conf target show False by auto
      next
        assume "cl = SetCpuOffline c"
        with off[of pre c r post] sp er have "cpu_allowed_offline H (state_after H h pre) c"
          by auto
        with never sp show False by blast
      qed
    qed
    then have "filter (\<lambda>e. call_cpu (fst e) = c) tr = []" by (auto simp: filter_empty_conv)
    moreover from target have "missing_of avail sts c = 0"
      by (simp add: missing_of_def conf missing_count_def)
    ultimately show ?thesis by simp
  qed
  have total: "ret = sum_list (map contribution tr) - int (missing_total avail sts)"
    if "isauthorized H h"
    using apply_pass_account(2)[OF that assms] .
  show ?thesis
  proof (intro conjI allI impI)
    fix pre c r post assume "tr = pre @ (SetCpuOnline c, r) # post"
    from on[OF this] show "\<exists>conf. map_of sts c = Some conf \<and> online conf"
      and "is_offline H (state_after H h pre) c" by simp_all
  next
    fix pre c r post assume "tr = pre @ (SetCpuOffline c, r) # post"
    from off[OF this] show "\<exists>conf. map_of sts c = Some conf \<and> \<not> online conf"
      and "is_online H (state_after H h pre) c"
      and "cpu_allowed_offline H (state_after H h pre) c" by simp_all
  next
    fix c conf
    assume a: "map_of sts c = Some conf \<and> \<not> online conf \<and>
      (\<forall>pre post. tr = pre @ post \<longrightarrow> \<not> cpu_allowed_offline H (state_after H h pre) c)"
    from a have "map_of sts c = Some conf" "\<not> online conf"
      "\<forall>pre post. tr = pre @ post \<longrightarrow> \<not> cpu_allowed_offline H (state_after H h pre) c"
      by simp_all
    from skipped[OF this] show "filter (\<lambda>e. call_cpu (fst e) = c) tr = []"
      and "missing_of avail sts c = 0" by simp_all
  next
    assume "isauthorized H h"
    from total[OF this] show "ret = sum_list (map contribution tr) - int (missing_total avail sts)" .
  qed
qed

theorem transitions_only_on_disagreement_witness:
  "on_apply_clicked (fixed_helper [0, 1] [] [1] (\<lambda>cl. 0)) True
      [(0, fresh_conf\<lparr>online := False\<rparr>), (1, fresh_conf\<lparr>online := False\<rparr>)] ()
     = (Success, 0, ((), [(SetCpuOffline 1, 0)])) \<and>
   is_online (fixed_helper [0, 1] [] [1] (\<lambda>cl. 0)) () 1 \<and>
   cpu_allowed_offline (fixed_helper [0, 1] [] [1] (\<lambda>cl. 0)) () 1 \<and>
   map_of [(0, fresh_conf\<lparr>online := False\<rparr>), (1, fresh_conf\<lparr>online := False\<rparr>)] (0::cpu)
     = Some (fresh_conf\<lparr>online := False\<rparr>) \<and>
   \<not> online (fresh_conf\<lparr>online := False\<rparr>) \<and>
   is_online (fixed_helper [0, 1] [] [1] (\<lambda>cl. 0)) () 0 \<and>
   \<not> cpu_allowed_offline (fixed_helper [0, 1] [] [1] (\<lambda>cl. 0)) () 0 \<and>
   filter (\<lambda>e. call_cpu (fst e) = 0) [(SetCpuOffline 1, 0::int)] = []"
proof -
  let ?H = "fixed_helper [0, 1] [] [1] (\<lambda>cl. 0)"
  let ?conf = "fresh_conf\<lparr>online := False\<rparr>"
  let ?sts = "[(0::cpu, ?conf), (1, ?conf)]"
  let ?tr = "[(SetCpuOffline 1, 0::int)]"
  have run: "on_apply_clicked ?H True ?sts () = (Success, 0, ((), ?tr))"
    by (simp add: pass_defs)
  note t = transitions_only_on_disagreement[OF run]
  from t have t2: "\<forall>pre c r post. ?tr = pre @ (SetCpuOffline c, r) # post \<longrightarrow>
      (\<exists>conf. map_of ?sts c = Some conf \<and> \<not> online conf) \<and>
      is_online ?H (state_after ?H () pre) c \<and>
      cpu_allowed_offline ?H (state_after ?H () pre) c"
    by (elim conjE)
  from t have t3: "\<forall>c conf. map_of ?sts c = Some conf \<and> \<not> online conf \<and>
      (\<forall>pre post. ?tr = pre @ post \<longrightarrow> \<not> cpu_allowed_offline ?H (state_after ?H () pre) c) \<longrightarrow>
      filter (\<lambda>e. call_cpu (fst e) = c) ?tr = [] \<and> missing_of True ?sts c = 0"
    by (elim conjE)
  have sp: "?tr = [] @ (SetCpuOffline 1, 0) # []" by simp
  from t2[rule_format, OF sp] have "is_online ?H (state_after ?H () []) 1"
    "cpu_allowed_offline ?H (state_after ?H () []) 1"
    by simp_all
  then have one: "is_online ?H () 1" "cpu_allowed_offline ?H () 1"
    by (simp_all add: state_after_def)
  have look: "map_of ?sts 0 = Some ?conf" by simp
  have target: "\<not> online ?conf" by simp
  have live: "is_online ?H () 0" by (simp add: is_online_def fixed_helper_def)
  have never: "\<not> cpu_allowed_offline ?H g 0" for g by (simp add: fixed_helper_def)
  have "map_of ?sts 0 = Some ?conf \<and> \<not> online ?conf \<and>
      (\<forall>pre post. ?tr = pre @ post \<longrightarrow> \<not> cpu_allowed_offline ?H (state_after ?H () pre) 0)"
    using look target never by simp
  from t3[rule_format, OF this] have none: "filter (\<lambda>e. call_cpu (fst e) = 0) ?tr = []"
    by simp
  from run one look target live never[of "()"] none show ?thesis by simp
qed

text \<open>
  C1.  In an apply pass over settings whose edited fields hold values, if the failed
  calls are exactly a frequency write and a governor write on one CPU (in either order
  in the log) and every other attempted write succeeded, the pass returns exactly
  \<open>- 24\<close>, one value, reported with the message of the governor-and-frequencies code.
\<close>

theorem governor_and_frequency_failure:
  assumes "isauthorized H h" and "on_apply_clicked H avail sts h = (out, ret, (h', tr))"
    and "list_all (\<lambda>(c, conf). values_present conf) sts"
    and "filter failed tr = [(UpdateCpuSettings c a b, r1), (UpdateCpuGovernor c g, r2)] \<or>
         filter failed tr = [(UpdateCpuGovernor c g, r2), (UpdateCpuSettings c a b, r1)]"
  shows "ret = - 24 \<and> out = Failed ''Setting governor and frequencies failed.''"
proof -
  note acc = apply_pass_account[OF assms(1,2)]
  have st: "set (filter failed tr) =
      {(UpdateCpuSettings c a b, r1), (UpdateCpuGovernor c g, r2)}"
  proof (rule disjE[OF assms(4)])
    assume h: "filter failed tr = [(UpdateCpuSettings c a b, r1), (UpdateCpuGovernor c g, r2)]"
    show ?thesis unfolding h by simp
  next
    assume h: "filter failed tr = [(UpdateCpuGovernor c g, r2), (UpdateCpuSettings c a b, r1)]"
    show ?thesis unfolding h by auto
  qed
  have "\<forall>e\<in>set (filter failed tr). failed e" by simp
  then have nz: "r1 \<noteq> 0" "r2 \<noteq> 0" unfolding st by (simp_all add: failed_def)
  have "sum_list (map contribution (filter failed tr)) = - 24"
  proof (rule disjE[OF assms(4)])
    assume h: "filter failed tr = [(UpdateCpuSettings c a b, r1), (UpdateCpuGovernor c g, r2)]"
    show ?thesis unfolding h using nz by simp
  next
    assume h: "filter failed tr = [(UpdateCpuGovernor c g, r2), (UpdateCpuSettings c a b, r1)]"
    show ?thesis unfolding h using nz by simp
  qed
  then have "sum_list (map contribution tr) = - 24"
    by (simp add: sum_contribution_failed[of tr])
  with acc(2) values_present_total[OF assms(3), of avail] have "ret = - 24" by simp
  with acc(1) show ?thesis by (simp add: report_def ERRORS_def)
qed

theorem governor_and_frequency_failure_witness:
  "isauthorized (fixed_helper [0] [] [] (\<lambda>cl. 1)) () \<and>
   on_apply_clicked (fixed_helper [0] [] [] (\<lambda>cl. 1)) True
     [(0, fresh_conf\<lparr>freqs := (Some 1200, Some 2000), governor := Some ''performance''\<rparr>)] ()
   = (Failed ''Setting governor and frequencies failed.'', - 24,
      ((), [(UpdateCpuSettings 0 1200000 2000000, 1), (UpdateCpuGovernor 0 ''performance'', 1)])) \<and>
   list_all (\<lambda>(c, conf). values_present conf)
     [(0::cpu, fresh_conf\<lparr>freqs := (Some 1200, Some 2000), governor := Some ''performance''\<rparr>)] \<and>
   filter failed [(UpdateCpuSettings 0 1200000 2000000, 1), (UpdateCpuGovernor 0 ''performance'', 1)]
   = [(UpdateCpuSettings 0 1200000 2000000, 1), (UpdateCpuGovernor 0 ''performance'', 1)]"
proof -
  let ?H = "fixed_helper [0] [] [] (\<lambda>cl. 1)"
  let ?sts = "[(0::cpu, fresh_conf\<lparr>freqs := (Some 1200, Some 2000), governor := Some ''performance''\<rparr>)]"
  let ?tr = "[(UpdateCpuSettings 0 1200000 2000000, 1::int), (UpdateCpuGovernor 0 ''performance'', 1)]"
  obtain out ret where run: "on_apply_clicked ?H True ?sts () = (out, ret, ((), ?tr))"
    by (simp add: pass_defs)
  have auth: "isauthorized ?H ()" by (simp add: fixed_helper_def)
  have vp: "list_all (\<lambda>(c, conf). values_present conf) ?sts"
    by (simp add: values_present_def fresh_conf_def)
  have fl: "filter failed ?tr = ?tr" by (simp add: failed_def)
  from fl have fl': "filter failed ?tr = ?tr \<or>
      filter failed ?tr = [(UpdateCpuGovernor 0 ''performance'', 1), (UpdateCpuSettings 0 1200000 2000000, 1)]"
    by (rule disjI1)
  from governor_and_frequency_failure[OF auth run vp fl'] run auth vp fl
  show ?thesis by simp
qed

text \<open>
  C5 (amended).  The apply pass returns the arithmetic sum of the contributions of its
  steps: for each logged call its contribution, and \<open>- 1\<close> for each step skipped for a
  missing value.  A returned 0 means that every attempted write succeeded and no step
  was skipped, provided that no online or offline transition returned a positive value.
  A returned 0 is reported as success; a non-zero sum is reported as a failure, with the
  table's message when it is one of the six codes and as the generic unknown error
  otherwise.
\<close>

theorem apply_result_is_sum:
  assumes "isauthorized H h" and "on_apply_clicked H avail sts h = (out, ret, (h', tr))"
  shows "ret = sum_list (map contribution tr) - int (missing_total avail sts) \<and>
         (ret = 0 \<and> list_all (\<lambda>e. transition_call (fst e) \<longrightarrow> snd e \<le> 0) tr \<longrightarrow>
            list_all (\<lambda>e. snd e = 0) tr \<and> missing_total avail sts = 0) \<and>
         (ret = 0 \<longrightarrow> out = Success) \<and>
         (ret \<noteq> 0 \<longrightarrow> out = Failed (case ERRORS ret of Some msg \<Rightarrow> msg
                                        | None \<Rightarrow> ''Unknown error occurred.'')) \<and>
         (ret \<noteq> 0 \<and> ret \<notin> {- 11, - 12, - 13, - 23, - 24, - 25} \<longrightarrow>
            out = Failed ''Unknown error occurred.'')"
proof -
  note acc = apply_pass_account[OF assms]
  have zero: "list_all (\<lambda>e. snd e = 0) tr \<and> missing_total avail sts = 0"
    if "ret = 0" and np: "list_all (\<lambda>e. transition_call (fst e) \<longrightarrow> snd e \<le> 0) tr"
  proof -
    from np have "\<forall>e\<in>set tr. contribution e \<le> 0"
      by (auto simp: list_all_iff intro: contribution_nonpos)
    moreover from acc(2) \<open>ret = 0\<close>
    have "sum_list (map contribution tr) = int (missing_total avail sts)" by simp
    ultimately have "(\<forall>e\<in>set tr. contribution e = 0) \<and> missing_total avail sts = 0"
      by (rule sum_nonpos_zero)
    then show ?thesis by (auto simp: list_all_iff dest: contribution_zero)
  qed
  have unknown: "out = Failed ''Unknown error occurred.''"
    if "ret \<noteq> 0" "ret \<notin> {- 11, - 12, - 13, - 23, - 24, - 25}"
  proof -
    from that(2) have "ERRORS ret = None" using ERRORS_None[of ret] by blast
    with that(1) acc(1) show ?thesis by (simp add: report_def)
  qed
  show ?thesis using acc(1,2) zero unknown by (simp add: report_def)
qed

theorem apply_result_is_sum_witness:
  "isauthorized (fixed_helper [0, 1] [] [] (\<lambda>cl. 1)) () \<and>
   on_apply_clicked (fixed_helper [0, 1] [] [] (\<lambda>cl. 1)) True
     [(0, fresh_conf\<lparr>governor := Some ''performance''\<rparr>),
      (1, fresh_conf\<lparr>governor := Some ''performance''\<rparr>)] ()
   = (Failed ''Unknown error occurred.'', - 22,
      ((), [(UpdateCpuGovernor 0 ''performance'', 1), (UpdateCpuGovernor 1 ''performance'', 1)])) \<and>
   isauthorized (fixed_helper [0, 1] [] [] (\<lambda>cl. 0)) () \<and>
   on_apply_clicked (fixed_helper [0, 1] [] [] (\<lambda>cl. 0)) True
     [(0, fresh_conf\<lparr>governor := Some ''performance''\<rparr>),
      (1, fresh_conf\<lparr>governor := Some ''performance''\<rparr>)] ()
   = (Success, 0,
      ((), [(UpdateCpuGovernor 0 ''performance'', 0), (UpdateCpuGovernor 1 ''performance'', 0)]))"
proof -
  let ?A = "fixed_helper [0, 1] [] [] (\<lambda>cl. 1)"
  let ?B = "fixed_helper [0, 1] [] [] (\<lambda>cl. 0)"
  let ?sts = "[(0::cpu, fresh_conf\<lparr>governor := Some ''performance''\<rparr>),
      (1, fresh_conf\<lparr>governor := Some ''performance''\<rparr>)]"
  let ?trA = "[(UpdateCpuGovernor 0 ''performance'', 1::int), (UpdateCpuGovernor 1 ''performance'', 1)]"
  let ?trB = "[(UpdateCpuGovernor 0 ''performance'', 0::int), (UpdateCpuGovernor 1 ''performance'', 0)]"
  obtain outA where runA: "on_apply_clicked ?A True ?sts () = (outA, - 22, ((), ?trA))"
    by (simp add: pass_defs)
  obtain outB where runB: "on_apply_clicked ?B True ?sts () = (outB, 0, ((), ?trB))"
    by (simp add: pass_defs)
  have authA: "isauthorized ?A ()" and authB: "isauthorized ?B ()"
    by (simp_all add: fixed_helper_def)
  from apply_result_is_sum[OF authA runA] have "outA = Failed ''Unknown error occurred.''"
    by (simp add: ERRORS_def)
  moreover from apply_result_is_sum[OF authB runB] have "outB = Success" by simp
  ultimately show ?thesis using runA runB authA authB by simp
qed

text \<open>
  C5 as stated fails: the raw value of a failed transition enters the sum unmapped, so a
  positive one can cancel a fixed code.  CPU 1 is offline and shall go online; the helper
  answers 11 to \<^verbatim>\<open>set_cpu_online\<close> and 1 to the governor write.  Both writes failed, the sum
  is \<open>11 + (- 11) = 0\<close>, and success is reported.
\<close>

theorem apply_result_is_sum_counterexample:
  "on_apply_clicked (fixed_helper [0] [1] [] (\<lambda>cl. if transition_call cl then 11 else 1)) True
     [(0, fresh_conf), (1, fresh_conf\<lparr>base_online := False, governor := Some ''performance''\<rparr>)] ()
   = (Success, 0, ((), [(SetCpuOnline 1, 11), (UpdateCpuGovernor 1 ''performance'', 1)]))"
  by (simp add: pass_defs)

text \<open>
  C9 (amended).  If the only failed call of an apply pass is an online or offline
  transition that returned \<open>r\<close>, and no step was skipped for a missing value, then the
  pass returns \<open>r\<close> itself.  It is reported as the generic unknown error unless \<open>r\<close>
  happens to be one of the six codes of the table, in which case that code's message is
  shown.
\<close>

theorem failed_transition_alone:
  assumes "isauthorized H h" and "on_apply_clicked H avail sts h = (out, ret, (h', tr))"
    and "missing_total avail sts = 0"
    and "filter failed tr = [(cl, r)]" and "transition_call cl"
  shows "ret = r \<and> r \<noteq> 0 \<and>
         out = Failed (case ERRORS r of Some msg \<Rightarrow> msg | None \<Rightarrow> ''Unknown error occurred.'') \<and>
         (r \<notin> {- 11, - 12, - 13, - 23, - 24, - 25} \<longrightarrow> out = Failed ''Unknown error occurred.'')"
proof -
  note acc = apply_pass_account[OF assms(1,2)]
  have "(cl, r) \<in> set (filter failed tr)" by (simp add: assms(4))
  then have nz: "r \<noteq> 0" by (simp add: failed_def)
  from assms(5) have "contribution (cl, r) = r" by (cases cl) simp_all
  then have "sum_list (map contribution tr) = r"
    by (simp add: sum_contribution_failed[of tr] assms(4))
  with acc(2) assms(3) have ret: "ret = r" by simp
  have "r \<notin> {- 11, - 12, - 13, - 23, - 24, - 25} \<Longrightarrow> ERRORS r = None"
    using ERRORS_None[of r] by blast
  with acc(1) ret nz show ?thesis by (auto simp: report_def)
qed

theorem failed_transition_alone_witness:
  "isauthorized (fixed_helper [0] [1] [] (\<lambda>cl. 5)) () \<and>
   on_apply_clicked (fixed_helper [0] [1] [] (\<lambda>cl. 5)) True
     [(0, fresh_conf), (1, fresh_conf\<lparr>base_online := False\<rparr>)] ()
   = (Failed ''Unknown error occurred.'', 5, ((), [(SetCpuOnline 1, 5)])) \<and>
   missing_total True [(0, fresh_conf), (1, fresh_conf\<lparr>base_online := False\<rparr>)] = 0 \<and>
   filter failed [(SetCpuOnline 1, 5)] = [(SetCpuOnline 1, 5)] \<and>
   transition_call (SetCpuOnline 1)"
proof -
  let ?H = "fixed_helper [0] [1] [] (\<lambda>cl. 5)"
  let ?sts = "[(0::cpu, fresh_conf), (1, fresh_conf\<lparr>base_online := False\<rparr>)]"
  obtain out ret where run: "on_apply_clicked ?H True ?sts () = (out, ret, ((), [(SetCpuOnline 1, 5)]))"
    by (simp add: pass_defs)
  have auth: "isauthorized ?H ()" by (simp add: fixed_helper_def)
  have none: "missing_total True ?sts = 0" by (simp add: missing_defs)
  have fl: "filter failed [(SetCpuOnline 1, 5::int)] = [(SetCpuOnline 1, 5)]" by (simp add: failed_def)
  have tc: "transition_call (SetCpuOnline 1)" by simp
  from failed_transition_alone[OF auth run none fl tc]
  have "ret = 5" "out = Failed ''Unknown error occurred.''" by (simp_all add: ERRORS_def)
  with run auth none fl show ?thesis by simp
qed

text \<open>
  C9 as stated fails when the helper's raw value is itself a code of the table: CPU 1
  shall go online and the helper answers \<open>- 13\<close>; the pass reports that setting the
  frequencies failed.
\<close>

theorem failed_transition_alone_counterexample:
  "on_apply_clicked (fixed_helper [0] [1] [] (\<lambda>cl. - 13)) True
     [(0, fresh_conf), (1, fresh_conf\<lparr>base_online := False\<rparr>)] ()
   = (Failed ''Setting frequencies failed.'', - 13, ((), [(SetCpuOnline 1, - 13)]))"
  by (simp add: pass_defs)

text \<open>
  C10 (amended).  For a CPU of the settings, the governor step returns \<open>- 1\<close> without a
  call when the governor is \<^verbatim>\<open>None\<close>; the frequency step returns \<open>- 1\<close> without a call when
  a bound is \<^verbatim>\<open>None\<close>; the energy-preference step returns \<open>- 1\<close> without a call when the
  preference is \<^verbatim>\<open>None\<close> or empty and the energy-preference feature is available, and 0
  without a call when the feature is not available.  Hence a pass over a changed, online
  CPU whose changed governor is \<^verbatim>\<open>None\<close> returns a negative sum, reported as a failure,
  even when every call it made succeeded.
\<close>

theorem missing_value_steps:
  assumes "map_of sts c = Some conf"
  shows "(governor conf = None \<longrightarrow> set_cpu_governor H sts c s = (- 1, s)) \<and>
         (avail \<and> (energy_pref conf = None \<or> energy_pref conf = Some []) \<longrightarrow>
            set_cpu_energy_preferences H avail sts c s = (- 1, s)) \<and>
         (\<not> avail \<longrightarrow> set_cpu_energy_preferences H avail sts c s = (0, s)) \<and>
         (fst (freqs_scaled conf) = None \<or> snd (freqs_scaled conf) = None \<longrightarrow>
            set_cpu_frequencies H sts c s = (- 1, s)) \<and>
         (isauthorized H h \<and> on_apply_clicked H avail sts h = (out, ret, (h', tr)) \<and>
          c \<in> set (changed_cpus sts) \<and> online conf \<and> setting_changed conf Governor \<and>
          governor conf = None \<and> list_all (\<lambda>e. snd e = 0) tr \<longrightarrow>
            ret < 0 \<and> ret = - int (missing_total avail sts) \<and>
            out = Failed (case ERRORS ret of Some msg \<Rightarrow> msg | None \<Rightarrow> ''Unknown error occurred.''))"
proof -
  have gov: "governor conf = None \<Longrightarrow> set_cpu_governor H sts c s = (- 1, s)"
    using assms by (simp add: set_cpu_governor_def)
  have en: "avail \<and> (energy_pref conf = None \<or> energy_pref conf = Some []) \<Longrightarrow>
      set_cpu_energy_preferences H avail sts c s = (- 1, s)"
    using assms by (auto simp: set_cpu_energy_preferences_def)
  have en0: "\<not> avail \<Longrightarrow> set_cpu_energy_preferences H avail sts c s = (0, s)"
    by (simp add: set_cpu_energy_preferences_def)
  have fr: "fst (freqs_scaled conf) = None \<or> snd (freqs_scaled conf) = None \<Longrightarrow>
      set_cpu_frequencies H sts c s = (- 1, s)"
    using assms by (cases "freqs_scaled conf") (auto simp: set_cpu_frequencies_def split: option.splits)
  have pass: "ret < 0 \<and> ret = - int (missing_total avail sts) \<and>
      out = Failed (case ERRORS ret of Some msg \<Rightarrow> msg | None \<Rightarrow> ''Unknown error occurred.'')"
    if auth: "isauthorized H h" and run: "on_apply_clicked H avail sts h = (out, ret, (h', tr))"
      and c: "c \<in> set (changed_cpus sts)" and m: "online conf" "setting_changed conf Governor"
        "governor conf = None"
      and ok: "list_all (\<lambda>e. snd e = 0) tr"
  proof -
    note acc = apply_pass_account[OF auth run]
    from m have "1 \<le> missing_count avail conf" by (simp add: missing_count_def)
    then have "1 \<le> missing_of avail sts c" by (simp add: missing_of_def assms)
    with missing_of_le_total[OF c, of avail] have "1 \<le> missing_total avail sts" by simp
    moreover from acc(2) sum_contribution_succeeded[OF ok]
    have "ret = - int (missing_total avail sts)" by simp
    ultimately show ?thesis using acc(1) by (simp add: report_def)
  qed
  from gov en en0 fr pass show ?thesis by blast
qed

theorem missing_value_steps_witness:
  "map_of [(0, fresh_conf\<lparr>governor := None\<rparr>)] (0::cpu) = Some (fresh_conf\<lparr>governor := None\<rparr>) \<and>
   governor (fresh_conf\<lparr>governor := None\<rparr>) = None \<and>
   set_cpu_governor (fixed_helper [0] [] [] (\<lambda>cl. 0)) [(0, fresh_conf\<lparr>governor := None\<rparr>)] 0 ((), [])
     = (- 1, ((), [])) \<and>
   on_apply_clicked (fixed_helper [0] [] [] (\<lambda>cl. 0)) True [(0, fresh_conf\<lparr>governor := None\<rparr>)] ()
     = (Failed ''Unknown error occurred.'', - 1, ((), []))"
proof -
  let ?H = "fixed_helper [0] [] [] (\<lambda>cl. 0)"
  let ?conf = "fresh_conf\<lparr>governor := None\<rparr>"
  let ?sts = "[(0::cpu, ?conf)]"
  have look: "map_of ?sts 0 = Some ?conf" by simp
  have g: "governor ?conf = None" by simp
  obtain out ret where run: "on_apply_clicked ?H True ?sts () = (out, ret, ((), []))"
    by (simp add: pass_defs)
  have auth: "isauthorized ?H ()" by (simp add: fixed_helper_def)
  have ch: "0 \<in> set (changed_cpus ?sts)" "online ?conf" "setting_changed ?conf Governor"
    by (simp_all add: changed_cpus_def changed_def fresh_conf_def)
  have ok: "list_all (\<lambda>e. snd e = 0) ([] :: (call \<times> int) list)" by simp
  have mt: "missing_total True ?sts = 1" by (simp add: missing_defs)
  note t = missing_value_steps[OF look, of ?H "((), [])" True "()" out ret "()" "[]"]
  from t g have step: "set_cpu_governor ?H ?sts 0 ((), []) = (- 1, ((), []))" by blast
  from t auth run ch g ok have "ret = - int (missing_total True ?sts) \<and>
      out = Failed (case ERRORS ret of Some msg \<Rightarrow> msg | None \<Rightarrow> ''Unknown error occurred.'')"
    by blast
  with mt have "ret = - 1" "out = Failed ''Unknown error occurred.''"
    by (simp_all add: ERRORS_def)
  with run look g step show ?thesis by simp
qed

text \<open>
  C10 as stated fails for the energy-preference step when the feature is not available:
  the step returns 0, not \<open>- 1\<close>, although the preference is \<^verbatim>\<open>None\<close>.
\<close>

theorem missing_value_steps_counterexample:
  "set_cpu_energy_preferences (fixed_helper [0] [] [] (\<lambda>cl. 0)) False
     [(0, fresh_conf\<lparr>energy_pref := None\<rparr>)] 0 ((), [])
   = (0, ((), []))"
  by (simp add: set_cpu_energy_preferences_def)

text \<open>
  C3 (amended).  For every pair of values that \<^verbatim>\<open>_on_freq_changed\<close> reads from the spin
  boxes, the pair stored for the active CPU (by the frequency setter as modelled from the
  spec) satisfies \<open>hwMin \<le> min \<le> max \<le> hwMax\<close>, and a pair that is already ordered is
  passed on as it is.  When the minimum has been raised above the maximum, the minimum
  is kept and the maximum becomes the minimum plus 10 MHz, capped at \<open>hwMax\<close>: a fixed
  step, not the requested delta, and never a swap.  The hardware limits are ordered, and
  the rounded sum of the minimum and 10 is not below the minimum.
\<close>

theorem freq_request_stored_within_limits:
  assumes conf: "map_of (settings w) (active_cpu w) = Some conf"
    and lims: "hw_lims conf = (lo, hi)" and le: "lo \<le> hi"
    and rnd: "fmin \<le> rnd (fmin + 10)"
  shows "(\<exists>w' p q conf'. on_freq_changed rnd spec_setters w fmin fmax = Inr (w', p, q) \<and>
            map_of (settings w') (active_cpu w) = Some conf' \<and>
            (\<exists>a b. freqs conf' = (Some a, Some b) \<and> lo \<le> a \<and> a \<le> b \<and> b \<le> hi \<and>
                   a = clamp (lo, hi) p \<and> b = clamp (lo, hi) q) \<and>
            (fmin \<le> fmax \<longrightarrow> p = fmin \<and> q = fmax)) \<and>
         (\<not> refreshing w \<and> fmax < v \<longrightarrow>
            (\<exists>w'. on_min_spin_changed rnd spec_setters w v fmax =
                     Inr (w', Some (v, min (rnd (v + 10)) hi))))"
proof -
  define q where "q = (if fmax < fmin then min (rnd (fmin + 10)) hi else fmax)"
  define w' where "w' = update_settings_freqs spec_setters (w\<lparr>refreshing := False\<rparr>)
      (active_cpu w) fmin q"
  define conf' where "conf' = spec_freqs_set conf (fmin, q)"
  have run: "on_freq_changed rnd spec_setters w fmin fmax = Inr (w', fmin, q)"
    using conf lims by (simp add: on_freq_changed_def w'_def q_def Let_def)
  have "map_of (settings w') (active_cpu w) =
      map_option (\<lambda>conf. freqs_set spec_setters conf (fmin, q)) (map_of (settings w) (active_cpu w))"
    unfolding w'_def using freqs_broadcast[of spec_setters "w\<lparr>refreshing := False\<rparr>"
        "active_cpu w" fmin q "active_cpu w"]
    by simp
  then have look: "map_of (settings w') (active_cpu w) = Some conf'"
    by (simp add: conf conf'_def spec_setters_def)
  have ord: "clamp (lo, hi) fmin \<le> clamp (lo, hi) q"
    unfolding q_def
    using handed_pair_ordered_after_clamp[of lo hi fmin rnd fmax] le rnd by simp
  then have st: "freqs conf' = (Some (clamp (lo, hi) fmin), Some (clamp (lo, hi) q))"
    by (simp add: conf'_def spec_freqs_set_def lims Let_def)
  have bd: "lo \<le> clamp (lo, hi) fmin" "clamp (lo, hi) q \<le> hi"
    using clamp_within[of "(lo, hi)"] le by simp_all
  have keep: "fmin \<le> fmax \<Longrightarrow> q = fmax" by (simp add: q_def)
  have first: "\<exists>w' p q conf'. on_freq_changed rnd spec_setters w fmin fmax = Inr (w', p, q) \<and>
            map_of (settings w') (active_cpu w) = Some conf' \<and>
            (\<exists>a b. freqs conf' = (Some a, Some b) \<and> lo \<le> a \<and> a \<le> b \<and> b \<le> hi \<and>
                   a = clamp (lo, hi) p \<and> b = clamp (lo, hi) q) \<and>
            (fmin \<le> fmax \<longrightarrow> p = fmin \<and> q = fmax)"
    using run look st ord bd keep
    by (intro exI[of _ w'] exI[of _ fmin] exI[of _ q] exI[of _ conf']) simp
  have second: "\<exists>w'. on_min_spin_changed rnd spec_setters w v fmax =
                     Inr (w', Some (v, min (rnd (v + 10)) hi))"
    if "\<not> refreshing w" "fmax < v"
    using that conf lims
    by (simp add: on_min_spin_changed_def on_freq_changed_def Let_def)
  from first second show ?thesis by (intro conjI impI) (simp_all only:, blast)
qed

theorem freq_request_stored_within_limits_witness:
  "map_of (settings demo_window) (active_cpu demo_window) = Some fresh_conf \<and>
   hw_lims fresh_conf = (800, 3200) \<and> (800::real) \<le> 3200 \<and>
   (5000::real) \<le> 5000 + 10 \<and>
   (\<exists>w' p q conf'. on_freq_changed (\<lambda>x. x) spec_setters demo_window 5000 1000 = Inr (w', p, q) \<and>
      map_of (settings w') (active_cpu demo_window) = Some conf' \<and>
      (\<exists>a b. freqs conf' = (Some a, Some b) \<and> 800 \<le> a \<and> a \<le> b \<and> b \<le> 3200)) \<and>
   \<not> refreshing demo_window \<and> (1000::real) < 2500 \<and>
   (\<exists>w'. on_min_spin_changed (\<lambda>x. x) spec_setters demo_window 2500 1000 =
      Inr (w', Some (2500, 2510)))"
proof -
  have h: "map_of (settings demo_window) (active_cpu demo_window) = Some fresh_conf"
    "hw_lims fresh_conf = (800, 3200)" "(800::real) \<le> 3200"
    by (simp_all add: demo_window_def fresh_conf_def)
  have r: "(5000::real) \<le> 5000 + 10" by simp
  have e: "\<not> refreshing demo_window" "(1000::real) < 2500"
    by (simp_all add: demo_window_def)
  note t = freq_request_stored_within_limits[where rnd = "\<lambda>x. x" and w = demo_window
      and fmin = 5000 and fmax = 1000 and v = 2500, OF h r]
  from t have first: "\<exists>w' p q conf'.
      on_freq_changed (\<lambda>x. x) spec_setters demo_window 5000 1000 = Inr (w', p, q) \<and>
      map_of (settings w') (active_cpu demo_window) = Some conf' \<and>
      (\<exists>a b. freqs conf' = (Some a, Some b) \<and> 800 \<le> a \<and> a \<le> b \<and> b \<le> 3200)"
    by blast
  from t e have "\<exists>w'. on_min_spin_changed (\<lambda>x. x) spec_setters demo_window 2500 1000 =
      Inr (w', Some (2500, min (2500 + 10) 3200))"
    by blast
  then have second: "\<exists>w'. on_min_spin_changed (\<lambda>x. x) spec_setters demo_window 2500 1000 =
      Inr (w', Some (2500, 2510))"
    by simp
  from h r first e second show ?thesis by blast
qed

text \<open>
  C3 as stated fails: the other bound is not pushed by the delta that was requested.  With
  limits of 800 to 3200 and the stored pair (1000, 2000), raising the minimum by 1500 to
  2500 stores (2500, 2510); pushing the maximum by the same 1500, capped at 3200, would
  give 3200.
\<close>

theorem freq_request_stored_within_limits_counterexample:
  "map_sum id (\<lambda>(w', p). (map_option freqs (map_of (settings w') 1), p))
     (on_min_spin_changed (\<lambda>x. x) spec_setters demo_window 2500 2000)
   = Inr (Some (Some 2500, Some 2510), Some (2500, 2510)) \<and>
   freqs fresh_conf = (Some 1000, Some 2000) \<and>
   (2510::real) \<noteq> min (2000 + (2500 - 1000)) 3200"
  by (simp add: on_min_spin_changed_def on_freq_changed_def update_settings_freqs_def
      demo_window_def fresh_conf_def for_conf_def spec_setters_def spec_freqs_set_def clamp_def)

text \<open>
  C6.  With "apply to all" checked, CPU 1 active and both CPUs online, unchecking the
  online box changes the settings of CPU 1 only: \<^verbatim>\<open>on_cpu_online_toggled\<close> does not read
  the toggle, where \<^verbatim>\<open>on_governor_changed\<close> and \<^verbatim>\<open>_update_settings_freqs\<close> do (lemmas
  \<open>governor_broadcast\<close>, \<open>freqs_broadcast\<close>).
\<close>

theorem online_toggle_not_broadcast:
  "map_sum id (\<lambda>w'. map (\<lambda>(c, conf). (c, online conf)) (settings w'))
     (on_cpu_online_toggled spec_setters (demo_window\<lparr>toall := True\<rparr>) False)
   = Inr [(0, True), (1, False)]"
  by (simp add: on_cpu_online_toggled_def demo_window_def for_conf_def spec_setters_def
      fresh_conf_def)

text \<open>
  C7.  An energy-preference edit (the window not refreshing, a valid combo index) keeps
  the CPUs of the settings and obeys \<^verbatim>\<open>energy_per_cpu\<close> alone: with the global scope the
  assignment \<^verbatim>\<open>conf.energy_pref = pref\<close> is made on every CPU's settings with the same
  value, with the per-CPU scope it is made on the active CPU's settings and every other
  CPU's settings stay as they were.  The "apply to all" toggle has no influence on the
  result.
\<close>

theorem energy_pref_scope:
  assumes "\<not> refreshing w" and "0 \<le> index"
  shows "map fst (settings (on_energy_pref_changed S w index pref)) = map fst (settings w) \<and>
         (\<not> energy_per_cpu w \<longrightarrow>
            (\<forall>c. map_of (settings (on_energy_pref_changed S w index pref)) c =
                 map_option (\<lambda>conf. energy_pref_set S conf pref) (map_of (settings w) c))) \<and>
         (energy_per_cpu w \<longrightarrow>
            map_of (settings (on_energy_pref_changed S w index pref)) (active_cpu w) =
              map_option (\<lambda>conf. energy_pref_set S conf pref) (map_of (settings w) (active_cpu w)) \<and>
            (\<forall>c. c \<noteq> active_cpu w \<longrightarrow>
                 map_of (settings (on_energy_pref_changed S w index pref)) c = map_of (settings w) c)) \<and>
         on_energy_pref_changed S (w\<lparr>toall := b\<rparr>) index pref =
           (on_energy_pref_changed S w index pref)\<lparr>toall := b\<rparr>"
  using assms
  by (simp add: on_energy_pref_changed_def map_of_for_all_confs map_of_for_conf
      keys_for_all_confs keys_for_conf)

theorem energy_pref_scope_witness:
  "\<not> refreshing demo_window \<and> (0::int) \<le> 0 \<and> \<not> energy_per_cpu demo_window \<and>
   map_of (settings (on_energy_pref_changed spec_setters demo_window 0 ''performance'')) 0 =
     Some (fresh_conf\<lparr>energy_pref := Some ''performance''\<rparr>) \<and>
   map_of (settings (on_energy_pref_changed spec_setters demo_window 0 ''performance'')) 1 =
     Some (fresh_conf\<lparr>energy_pref := Some ''performance''\<rparr>) \<and>
   energy_per_cpu (demo_window\<lparr>energy_per_cpu := True\<rparr>) \<and>
   map_of (settings (on_energy_pref_changed spec_setters
       (demo_window\<lparr>energy_per_cpu := True\<rparr>) 0 ''performance'')) 0 = Some fresh_conf \<and>
   map_of (settings (on_energy_pref_changed spec_setters
       (demo_window\<lparr>energy_per_cpu := True\<rparr>) 0 ''performance'')) 1 =
     Some (fresh_conf\<lparr>energy_pref := Some ''performance''\<rparr>)"
proof -
  let ?w = "demo_window"
  let ?v = "demo_window\<lparr>energy_per_cpu := True\<rparr>"
  have a: "\<not> refreshing ?w" "\<not> refreshing ?v" by (simp_all add: demo_window_def)
  have i: "(0::int) \<le> 0" by simp
  have g: "\<not> energy_per_cpu ?w" "energy_per_cpu ?v" by (simp_all add: demo_window_def)
  have s: "map_of (settings ?w) 0 = Some fresh_conf" "map_of (settings ?w) 1 = Some fresh_conf"
    "map_of (settings ?v) 0 = Some fresh_conf" "map_of (settings ?v) 1 = Some fresh_conf"
    "active_cpu ?v = 1"
    by (simp_all add: demo_window_def)
  have e: "energy_pref_set spec_setters fresh_conf ''performance'' =
      fresh_conf\<lparr>energy_pref := Some ''performance''\<rparr>"
    by (simp add: spec_setters_def fresh_conf_def)
  note t1 = energy_pref_scope[OF a(1) i, of spec_setters "''performance''"]
  note t2 = energy_pref_scope[OF a(2) i, of spec_setters "''performance''"]
  from t1 g(1) have "\<forall>c. map_of (settings (on_energy_pref_changed spec_setters ?w 0 ''performance'')) c =
      map_option (\<lambda>conf. energy_pref_set spec_setters conf ''performance'') (map_of (settings ?w) c)"
    by blast
  then have g1: "map_of (settings (on_energy_pref_changed spec_setters ?w 0 ''performance'')) 0 =
      Some (fresh_conf\<lparr>energy_pref := Some ''performance''\<rparr>)"
    "map_of (settings (on_energy_pref_changed spec_setters ?w 0 ''performance'')) 1 =
      Some (fresh_conf\<lparr>energy_pref := Some ''performance''\<rparr>)"
    by (simp_all add: s e)
  from t2 g(2) have p: "map_of (settings (on_energy_pref_changed spec_setters ?v 0 ''performance'')) (active_cpu ?v) =
      map_option (\<lambda>conf. energy_pref_set spec_setters conf ''performance'') (map_of (settings ?v) (active_cpu ?v))"
    "\<forall>c. c \<noteq> active_cpu ?v \<longrightarrow>
       map_of (settings (on_energy_pref_changed spec_setters ?v 0 ''performance'')) c = map_of (settings ?v) c"
    by blast+
  from p(1) have p1: "map_of (settings (on_energy_pref_changed spec_setters ?v 0 ''performance'')) 1 =
      Some (fresh_conf\<lparr>energy_pref := Some ''performance''\<rparr>)"
    by (simp add: s e)
  from p(2) have p0: "map_of (settings (on_energy_pref_changed spec_setters ?v 0 ''performance'')) 0 =
      Some fresh_conf"
    by (simp add: s)
  from a i g g1 p0 p1 show ?thesis by blast
qed

end
